theory Spec2Isabelle
  imports Complex_Main "HOL-Library.Monad_Syntax" "HOL-Library.Extended_Nat"
begin

section \<open>JavaScript values and strings\<close>

text \<open>
  The page component (\<^verbatim>\<open>src/app/page.tsx\<close>, lines 1 to 603) is TypeScript running in a
  browser. Three pieces of the language matter for what follows and are written out here:
  reading a property of a plain object, truthiness, and the conversion to a string that a
  template literal performs.

  Reading \<^verbatim>\<open>obj[key]\<close> on an object literal first looks among the object's own
  properties and then along the prototype chain, which for an object literal is
  \<^verbatim>\<open>Object.prototype\<close>. A value read that way is a string of the table, a built-in
  function, the prototype object itself (the accessor \<^verbatim>\<open>__proto__\<close>), or
  \<^verbatim>\<open>undefined\<close>.
\<close>

datatype js_value =
    Undefined
  | Str string
  | NativeFunction string
  | ObjectPrototype

fun truthy :: "js_value \<Rightarrow> bool" where
  "truthy Undefined = False"
| "truthy (Str s) = (s \<noteq> [])"
| "truthy (NativeFunction f) = True"
| "truthy ObjectPrototype = True"

text \<open>
  The text a template literal inserts for a value. A built-in function prints as the
  engines print it (\<^verbatim>\<open>function Object() { [native code] }\<close>), the prototype object as
  \<^verbatim>\<open>[object Object]\<close>.
\<close>

fun to_string :: "js_value \<Rightarrow> string" where
  "to_string Undefined = ''undefined''"
| "to_string (Str s) = s"
| "to_string (NativeFunction f) = ''function '' @ f @ ''() { [native code] }''"
| "to_string ObjectPrototype = ''[object Object]''"

text \<open>The properties every object literal inherits from \<^verbatim>\<open>Object.prototype\<close>.\<close>

definition objectPrototype :: "(string \<times> js_value) list" where
  "objectPrototype =
    [(''constructor'', NativeFunction ''Object''),
     (''hasOwnProperty'', NativeFunction ''hasOwnProperty''),
     (''isPrototypeOf'', NativeFunction ''isPrototypeOf''),
     (''propertyIsEnumerable'', NativeFunction ''propertyIsEnumerable''),
     (''toLocaleString'', NativeFunction ''toLocaleString''),
     (''toString'', NativeFunction ''toString''),
     (''valueOf'', NativeFunction ''valueOf''),
     (''__defineGetter__'', NativeFunction ''__defineGetter__''),
     (''__defineSetter__'', NativeFunction ''__defineSetter__''),
     (''__lookupGetter__'', NativeFunction ''__lookupGetter__''),
     (''__lookupSetter__'', NativeFunction ''__lookupSetter__''),
     (''__proto__'', ObjectPrototype)]"

text \<open>\<^verbatim>\<open>table[key]\<close> for an object literal whose own properties are the pairs of \<open>table\<close>.\<close>

definition get_property :: "(string \<times> string) list \<Rightarrow> string \<Rightarrow> js_value" where
  "get_property table key =
    (case map_of table key of
       Some v \<Rightarrow> Str v
     | None \<Rightarrow> (case map_of objectPrototype key of Some v \<Rightarrow> v | None \<Rightarrow> Undefined))"

text \<open>
  \<^verbatim>\<open>s.split(c)\<close> for a one-character separator: the pieces between the separators, in
  order; a string without the separator is its only piece, so the result is never empty.
\<close>

fun split :: "char \<Rightarrow> string \<Rightarrow> string list" where
  "split c [] = [[]]"
| "split c (x # xs) =
    (if x = c then [] # split c xs
     else (case split c xs of p # ps \<Rightarrow> (x # p) # ps | [] \<Rightarrow> [[x]]))"

text \<open>\<^verbatim>\<open>parts[i]\<close>: the element, or \<^verbatim>\<open>undefined\<close> past the end of the array.\<close>

definition element :: "string list \<Rightarrow> nat \<Rightarrow> js_value" where
  "element parts i = (if i < length parts then Str (parts ! i) else Undefined)"

section \<open>The bone name mapping table\<close>

text \<open>\<^verbatim>\<open>boneMapping\<close> (lines 43 to 109): motion-file joint name to character joint name.\<close>

definition boneMapping :: "(string \<times> string) list" where
  "boneMapping =
    [(''hips_JNT'', ''J_Bip_C_Hips''),
     (''spine_JNT'', ''J_Bip_C_Spine''),
     (''spine1_JNT'', ''J_Bip_C_Chest''),
     (''spine2_JNT'', ''J_Bip_C_UpperChest''),
     (''neck_JNT'', ''J_Bip_C_Neck''),
     (''head_JNT'', ''J_Bip_C_Head''),
     (''l_shoulder_JNT'', ''J_Bip_L_Shoulder''),
     (''l_arm_JNT'', ''J_Bip_L_UpperArm''),
     (''l_forearm_JNT'', ''J_Bip_L_LowerArm''),
     (''l_hand_JNT'', ''J_Bip_L_Hand''),
     (''r_shoulder_JNT'', ''J_Bip_R_Shoulder''),
     (''r_arm_JNT'', ''J_Bip_R_UpperArm''),
     (''r_forearm_JNT'', ''J_Bip_R_LowerArm''),
     (''r_hand_JNT'', ''J_Bip_R_Hand''),
     (''l_upleg_JNT'', ''J_Bip_L_UpperLeg''),
     (''l_leg_JNT'', ''J_Bip_L_LowerLeg''),
     (''l_foot_JNT'', ''J_Bip_L_Foot''),
     (''l_toebase_JNT'', ''J_Bip_L_ToeBase''),
     (''r_upleg_JNT'', ''J_Bip_R_UpperLeg''),
     (''r_leg_JNT'', ''J_Bip_R_LowerLeg''),
     (''r_foot_JNT'', ''J_Bip_R_Foot''),
     (''r_toebase_JNT'', ''J_Bip_R_ToeBase''),
     (''l_handThumb1_JNT'', ''J_Bip_L_Thumb1''),
     (''l_handThumb2_JNT'', ''J_Bip_L_Thumb2''),
     (''l_handThumb3_JNT'', ''J_Bip_L_Thumb3''),
     (''l_handIndex1_JNT'', ''J_Bip_L_Index1''),
     (''l_handIndex2_JNT'', ''J_Bip_L_Index2''),
     (''l_handIndex3_JNT'', ''J_Bip_L_Index3''),
     (''l_handMiddle1_JNT'', ''J_Bip_L_Middle1''),
     (''l_handMiddle2_JNT'', ''J_Bip_L_Middle2''),
     (''l_handMiddle3_JNT'', ''J_Bip_L_Middle3''),
     (''l_handRing1_JNT'', ''J_Bip_L_Ring1''),
     (''l_handRing2_JNT'', ''J_Bip_L_Ring2''),
     (''l_handRing3_JNT'', ''J_Bip_L_Ring3''),
     (''l_handPinky1_JNT'', ''J_Bip_L_Little1''),
     (''l_handPinky2_JNT'', ''J_Bip_L_Little2''),
     (''l_handPinky3_JNT'', ''J_Bip_L_Little3''),
     (''r_handThumb1_JNT'', ''J_Bip_R_Thumb1''),
     (''r_handThumb2_JNT'', ''J_Bip_R_Thumb2''),
     (''r_handThumb3_JNT'', ''J_Bip_R_Thumb3''),
     (''r_handIndex1_JNT'', ''J_Bip_R_Index1''),
     (''r_handIndex2_JNT'', ''J_Bip_R_Index2''),
     (''r_handIndex3_JNT'', ''J_Bip_R_Index3''),
     (''r_handMiddle1_JNT'', ''J_Bip_R_Middle1''),
     (''r_handMiddle2_JNT'', ''J_Bip_R_Middle2''),
     (''r_handMiddle3_JNT'', ''J_Bip_R_Middle3''),
     (''r_handRing1_JNT'', ''J_Bip_R_Ring1''),
     (''r_handRing2_JNT'', ''J_Bip_R_Ring2''),
     (''r_handRing3_JNT'', ''J_Bip_R_Ring3''),
     (''r_handPinky1_JNT'', ''J_Bip_R_Little1''),
     (''r_handPinky2_JNT'', ''J_Bip_R_Little2''),
     (''r_handPinky3_JNT'', ''J_Bip_R_Little3'')]"

section \<open>The object store\<close>

text \<open>
  \<^verbatim>\<open>retargetAnimation\<close> works on objects of the three.js library: a clip refers to an
  array of tracks, a track to its two sample arrays. Whether the source clip is left
  untouched, and whether the result shares an array with it, depends on which object is
  which, so objects live in a store and are referred to by address. A new object takes
  the next free address.
\<close>

type_synonym addr = nat

datatype obj =
    Float32Array "real list"
  | KeyframeTrack string addr addr
  | AnimationClip string real addr
  | Array "addr list"

type_synonym heap = "obj list"

definition alloc :: "heap \<Rightarrow> obj \<Rightarrow> addr \<times> heap" where
  "alloc h x = (length h, h @ [x])"

definition deref :: "heap \<Rightarrow> addr \<Rightarrow> obj option" where
  "deref h a = (if a < length h then Some (h ! a) else None)"

text \<open>
  Typed reads. \<open>None\<close> stands for a reference that is dangling or of another class,
  where the JavaScript would fail with a \<^verbatim>\<open>TypeError\<close>.
\<close>

definition floats_at :: "heap \<Rightarrow> addr \<Rightarrow> real list option" where
  "floats_at h a = (case deref h a of Some (Float32Array xs) \<Rightarrow> Some xs | _ \<Rightarrow> None)"

definition track_at :: "heap \<Rightarrow> addr \<Rightarrow> (string \<times> addr \<times> addr) option" where
  "track_at h a =
    (case deref h a of Some (KeyframeTrack name tms vls) \<Rightarrow> Some (name, tms, vls) | _ \<Rightarrow> None)"

definition clip_at :: "heap \<Rightarrow> addr \<Rightarrow> (string \<times> real \<times> addr) option" where
  "clip_at h a =
    (case deref h a of Some (AnimationClip name duration tracks) \<Rightarrow> Some (name, duration, tracks)
     | _ \<Rightarrow> None)"

definition array_at :: "heap \<Rightarrow> addr \<Rightarrow> addr list option" where
  "array_at h a = (case deref h a of Some (Array xs) \<Rightarrow> Some xs | _ \<Rightarrow> None)"

text \<open>\<^verbatim>\<open>array.push(x)\<close>: the one operation below that writes to an existing object.\<close>

definition push :: "heap \<Rightarrow> addr \<Rightarrow> addr \<Rightarrow> heap option" where
  "push h arr x = do { xs \<leftarrow> array_at h arr; Some (h[arr := Array (xs @ [x])]) }"

section \<open>Retargeting a clip\<close>

text \<open>
  The three.js calls are modelled by what they are documented to do on well-formed
  objects. \<^verbatim>\<open>AnimationClip.parse(AnimationClip.toJSON(clip))\<close> builds a deep copy: a
  new clip with a new track array, new tracks and new sample arrays holding the same
  numbers. \<^verbatim>\<open>new KeyframeTrack(name, times, values)\<close> keeps a typed array it is given
  (it converts only an array of another type), so the new track refers to the very arrays
  passed. \<^verbatim>\<open>new AnimationClip(name, duration, tracks)\<close> stores its arguments, except
  that it computes a negative duration anew, as the largest last key time of the tracks.
\<close>

definition clone_track :: "heap \<Rightarrow> addr \<Rightarrow> (addr \<times> heap) option" where
  "clone_track h track = do {
     (name, tms, vls) \<leftarrow> track_at h track;
     ts \<leftarrow> floats_at h tms;
     vs \<leftarrow> floats_at h vls;
     let (tms', h1) = alloc h (Float32Array ts);
     let (vls', h2) = alloc h1 (Float32Array vs);
     Some (alloc h2 (KeyframeTrack name tms' vls'))
   }"

fun clone_tracks :: "heap \<Rightarrow> addr list \<Rightarrow> (addr list \<times> heap) option" where
  "clone_tracks h [] = Some ([], h)"
| "clone_tracks h (t # ts) = do {
     (t', h1) \<leftarrow> clone_track h t;
     (ts', h2) \<leftarrow> clone_tracks h1 ts;
     Some (t' # ts', h2)
   }"

definition parse_toJSON :: "heap \<Rightarrow> addr \<Rightarrow> (addr \<times> heap) option" where
  "parse_toJSON h clip = do {
     (name, duration, arr) \<leftarrow> clip_at h clip;
     tracks \<leftarrow> array_at h arr;
     (tracks', h1) \<leftarrow> clone_tracks h tracks;
     let (arr', h2) = alloc h1 (Array tracks');
     Some (alloc h2 (AnimationClip name duration arr'))
   }"

fun resetDuration :: "heap \<Rightarrow> addr list \<Rightarrow> real option" where
  "resetDuration h [] = Some 0"
| "resetDuration h (t # ts) = do {
     (name, tms, vls) \<leftarrow> track_at h t;
     xs \<leftarrow> floats_at h tms;
     d \<leftarrow> resetDuration h ts;
     Some (max (last xs) d)
   }"

definition new_AnimationClip :: "heap \<Rightarrow> string \<Rightarrow> real \<Rightarrow> addr \<Rightarrow> (addr \<times> heap) option" where
  "new_AnimationClip h name duration arr =
    (if duration < 0 then do {
       tracks \<leftarrow> array_at h arr;
       d \<leftarrow> resetDuration h tracks;
       Some (alloc h (AnimationClip name d arr))
     }
     else Some (alloc h (AnimationClip name duration arr)))"

text \<open>
  The function passed to \<^verbatim>\<open>forEach\<close> (lines 143 to 153), with the array
  \<^verbatim>\<open>newTracks\<close> it closes over as a parameter. The destructuring
  \<^verbatim>\<open>[boneName, property] = track.name.split('.')\<close> takes the first two pieces and
  ignores the others; \<open>property\<close> is \<^verbatim>\<open>undefined\<close> when the name has no dot.
\<close>

definition callback :: "addr \<Rightarrow> heap \<Rightarrow> addr \<Rightarrow> heap option" where
  "callback newTracks h track = do {
     (name, tms, vls) \<leftarrow> track_at h track;
     let parts = split (CHR ''.'') name;
     let boneName = element parts 0;
     let property = element parts 1;
     if truthy (get_property boneMapping (to_string boneName)) then do {
       vs \<leftarrow> floats_at h vls;
       let (sliced, h1) = alloc h (Float32Array vs);
       let (newTrack, h2) = alloc h1
         (KeyframeTrack
           (to_string (get_property boneMapping (to_string boneName)) @ ''.'' @ to_string property)
           tms sliced);
       push h2 newTracks newTrack
     }
     else Some h
   }"

fun forEach :: "(heap \<Rightarrow> addr \<Rightarrow> heap option) \<Rightarrow> heap \<Rightarrow> addr list \<Rightarrow> heap option" where
  "forEach f h [] = Some h"
| "forEach f h (x # xs) = do { h' \<leftarrow> f h x; forEach f h' xs }"

text \<open>\<^verbatim>\<open>retargetAnimation\<close> (lines 139 to 156).\<close>

definition retargetAnimation :: "heap \<Rightarrow> addr \<Rightarrow> (addr \<times> heap) option" where
  "retargetAnimation h clip = do {
     (newClip, h1) \<leftarrow> parse_toJSON h clip;
     let (newTracks, h2) = alloc h1 (Array []);
     (name', duration', arr') \<leftarrow> clip_at h2 newClip;
     tracks' \<leftarrow> array_at h2 arr';
     h3 \<leftarrow> forEach (callback newTracks) h2 tracks';
     (name, duration, arr) \<leftarrow> clip_at h3 clip;
     new_AnimationClip h3 name duration newTracks
   }"

text \<open>
  What an observer reads from a clip: its name, its duration and, track by track, the
  name and the two sample sequences.
\<close>

definition read_track :: "heap \<Rightarrow> addr \<Rightarrow> (string \<times> real list \<times> real list) option" where
  "read_track h track = do {
     (name, tms, vls) \<leftarrow> track_at h track;
     ts \<leftarrow> floats_at h tms;
     vs \<leftarrow> floats_at h vls;
     Some (name, ts, vs)
   }"

definition read_clip ::
  "heap \<Rightarrow> addr \<Rightarrow> (string \<times> real \<times> (string \<times> real list \<times> real list) list) option" where
  "read_clip h clip = do {
     (name, duration, arr) \<leftarrow> clip_at h clip;
     tracks \<leftarrow> array_at h arr;
     contents \<leftarrow> those (map (read_track h) tracks);
     Some (name, duration, contents)
   }"

text \<open>
  The callback's decision and the name it builds depend on the track name alone:
  \<open>retarget_name\<close> is the name of the emitted track, or \<open>None\<close> when nothing is
  emitted. \<open>retargeted\<close> is the track list one expects to read from the result.
\<close>

definition retarget_name :: "string \<Rightarrow> string option" where
  "retarget_name name =
    (let parts = split (CHR ''.'') name;
         v = get_property boneMapping (to_string (element parts 0))
     in if truthy v then Some (to_string v @ ''.'' @ to_string (element parts 1)) else None)"

definition retargeted ::
  "(string \<times> real list \<times> real list) list \<Rightarrow> (string \<times> real list \<times> real list) list" where
  "retargeted cs =
    List.map_filter (\<lambda>(name, ts, vs). map_option (\<lambda>name'. (name', ts, vs)) (retarget_name name)) cs"

text \<open>The bone name of a track name: the part before the first dot.\<close>

definition boneName_of :: "string \<Rightarrow> string" where
  "boneName_of name = takeWhile (\<lambda>c. c \<noteq> CHR ''.'') name"

text \<open>
  The second part of a track name as the template literal prints it: the text
  \<^verbatim>\<open>undefined\<close> when there is none.
\<close>

definition property_of :: "string \<Rightarrow> string" where
  "property_of name = to_string (element (split (CHR ''.'') name) 1)"

text \<open>The names of the properties an object literal inherits.\<close>

definition inherited_name :: "string \<Rightarrow> bool" where
  "inherited_name key \<longleftrightarrow> key \<in> fst ` set objectPrototype"

text \<open>
  What the table alone prescribes for a track, whatever the shape of its name: a track
  whose bone name is a key is renamed to the mapped joint, a dot and the second part, and
  keeps its samples; any other track is dropped.
\<close>

definition rename_by_table ::
  "string \<times> real list \<times> real list \<Rightarrow> (string \<times> real list \<times> real list) option" where
  "rename_by_table c =
    (case c of (name, ts, vs) \<Rightarrow>
       map_option (\<lambda>m. (m @ ''.'' @ property_of name, ts, vs)) (map_of boneMapping (boneName_of name)))"

text \<open>Calling \<^verbatim>\<open>retargetAnimation\<close> and reading the clip it returns.\<close>

definition retarget_and_read ::
  "heap \<Rightarrow> addr \<Rightarrow> (string \<times> real \<times> (string \<times> real list \<times> real list) list) option" where
  "retarget_and_read h clip = do { (r, h') \<leftarrow> retargetAnimation h clip; read_clip h' r }"

text \<open>
  Stores used as examples. \<open>scenario\<close> holds, at address 7, a clip with the tracks
  \<^verbatim>\<open>hips_JNT.position\<close> and \<^verbatim>\<open>tail_JNT.rotation\<close>; \<open>unmapped\<close>, at address 4, a
  clip whose only track belongs to a joint outside the table; \<open>odd_names\<close>, at address 7,
  a clip with three track names that do not split into two parts and one that does;
  \<open>inherited_constructor\<close>, \<open>inherited_toString\<close> and \<open>inherited_proto\<close>, at address 4, a
  clip with one track of a joint named like a property that every object inherits.
\<close>

definition scenario :: heap where
  "scenario =
    [Float32Array [0, 1], Float32Array [0, 0, 0, 1, 2, 3],
     KeyframeTrack ''hips_JNT.position'' 0 1,
     Float32Array [0], Float32Array [0, 0, 0, 1],
     KeyframeTrack ''tail_JNT.rotation'' 3 4,
     Array [2, 5], AnimationClip ''dance'' 1 6]"

definition unmapped :: heap where
  "unmapped =
    [Float32Array [0, 2], Float32Array [0, 0, 0, 1, 0, 0, 0, 1],
     KeyframeTrack ''tail_JNT.quaternion'' 0 1,
     Array [2], AnimationClip ''wag'' 2 3]"

definition odd_names :: heap where
  "odd_names =
    [Float32Array [0, 1], Float32Array [1, 2, 3, 4, 5, 6],
     KeyframeTrack ''hips_JNT'' 0 1,
     KeyframeTrack ''head_JNT.position.x'' 0 1,
     KeyframeTrack ''tail_JNT'' 0 1,
     KeyframeTrack ''spine_JNT.position'' 0 1,
     Array [2, 3, 4, 5], AnimationClip ''dance'' 1 6]"

definition inherited_constructor :: heap where
  "inherited_constructor =
    [Float32Array [0], Float32Array [0, 0, 0],
     KeyframeTrack ''constructor.position'' 0 1,
     Array [2], AnimationClip ''dance'' 0 3]"

definition inherited_toString :: heap where
  "inherited_toString =
    [Float32Array [0, 2], Float32Array [1, 1, 1, 2, 2, 2],
     KeyframeTrack ''toString.scale'' 0 1,
     Array [2], AnimationClip ''idle'' 2 3]"

definition inherited_proto :: heap where
  "inherited_proto =
    [Float32Array [0], Float32Array [0, 0, 0, 1],
     KeyframeTrack ''__proto__.quaternion'' 0 1,
     Array [2], AnimationClip ''dance'' 0 3]"

text \<open>A track identifier is malformed when it does not split into exactly two parts.\<close>

definition malformed :: "string \<Rightarrow> bool" where
  "malformed name \<longleftrightarrow> length (split (CHR ''.'') name) \<noteq> 2"

text \<open>The sample arrays (key times and values) of all tracks of a clip.\<close>

definition track_arrays :: "heap \<Rightarrow> addr \<Rightarrow> addr list option" where
  "track_arrays h track = do { (name, tms, vls) \<leftarrow> track_at h track; Some [tms, vls] }"

definition sample_arrays :: "heap \<Rightarrow> addr \<Rightarrow> addr list option" where
  "sample_arrays h clip = do {
     (name, duration, arr) \<leftarrow> clip_at h clip;
     tracks \<leftarrow> array_at h arr;
     as \<leftarrow> those (map (track_arrays h) tracks);
     Some (concat as)
   }"

text \<open>
  \<open>frame X h h'\<close>: the store \<open>h'\<close> has every object of \<open>h\<close>, unchanged except at the
  addresses in \<open>X\<close>. With \<open>X\<close> empty, \<open>h\<close> is an initial segment of \<open>h'\<close>.
\<close>

definition frame :: "addr set \<Rightarrow> heap \<Rightarrow> heap \<Rightarrow> bool" where
  "frame X h h' \<longleftrightarrow> length h \<le> length h' \<and> (\<forall>a < length h. a \<notin> X \<longrightarrow> h' ! a = h ! a)"

definition arrays_only :: "addr set \<Rightarrow> heap \<Rightarrow> bool" where
  "arrays_only X h \<longleftrightarrow> (\<forall>a \<in> X. a < length h \<longrightarrow> (\<exists>xs. h ! a = Array xs))"

definition fresh_track :: "nat \<Rightarrow> heap \<Rightarrow> addr \<Rightarrow> bool" where
  "fresh_track n h t \<longleftrightarrow>
    (\<exists>name tms vls. track_at h t = Some (name, tms, vls) \<and> n \<le> tms \<and> n \<le> vls)"

section \<open>Playback and loading\<close>

text \<open>
  The number \<open>index\<close> printed by a template literal: decimal digits, for a natural number
  (below \<open>10^21\<close>, where JavaScript changes to exponent notation).
\<close>

fun string_of_nat :: "nat \<Rightarrow> string" where
  "string_of_nat n =
    (if n < 10 then [char_of (48 + n)]
     else string_of_nat (n div 10) @ [char_of (48 + n mod 10)])"

declare string_of_nat.simps [simp del]

text \<open>
  A three.js \<^verbatim>\<open>AnimationAction\<close>, by what its methods are documented to do.
  \<open>scheduled\<close> says whether the action is among its mixer's active actions
  (\<^verbatim>\<open>play()\<close> activates it, \<^verbatim>\<open>stop()\<close> deactivates and resets it); \<open>fading\<close> is the
  pending fade as duration, start weight and end weight.
\<close>

datatype loop_mode = LoopOnce | LoopRepeat | LoopPingPong

record action =
  time :: real
  paused :: bool
  enabled :: bool
  scheduled :: bool
  fading :: "(real \<times> real \<times> real) option"
  loop :: loop_mode
  repetitions :: enat

definition new_action :: action where
  "new_action = \<lparr>time = 0, paused = False, enabled = True, scheduled = False, fading = None,
     loop = LoopRepeat, repetitions = \<infinity>\<rparr>"

definition reset :: "action \<Rightarrow> action" where
  "reset a = a\<lparr>paused := False, enabled := True, time := 0, fading := None\<rparr>"

definition stop :: "action \<Rightarrow> action" where
  "stop a = reset (a\<lparr>scheduled := False\<rparr>)"

definition play :: "action \<Rightarrow> action" where
  "play a = a\<lparr>scheduled := True\<rparr>"

definition fadeIn :: "real \<Rightarrow> action \<Rightarrow> action" where
  "fadeIn d a = a\<lparr>fading := Some (d, 0, 1)\<rparr>"

definition fadeOut :: "real \<Rightarrow> action \<Rightarrow> action" where
  "fadeOut d a = a\<lparr>fading := Some (d, 1, 0)\<rparr>"

definition setLoop :: "loop_mode \<Rightarrow> enat \<Rightarrow> action \<Rightarrow> action" where
  "setLoop m r a = a\<lparr>loop := m, repetitions := r\<rparr>"

text \<open>
  An \<^verbatim>\<open>HTMLAudioElement\<close>: \<^verbatim>\<open>new Audio(src)\<close> does not loop and has not been played;
  \<open>play_requests\<close> counts the calls of \<^verbatim>\<open>play()\<close>. Whether the browser then plays is
  settled later, through the promise that \<^verbatim>\<open>play()\<close> returns; its handler only logs.
\<close>

record audio =
  src :: string
  audio_loop :: bool
  play_requests :: nat

definition new_Audio :: "string \<Rightarrow> audio" where
  "new_Audio path = \<lparr>src = path, audio_loop = False, play_requests = 0\<rparr>"

definition audio_play :: "audio \<Rightarrow> audio" where
  "audio_play a = a\<lparr>play_requests := Suc (play_requests a)\<rparr>"

definition DANCE_MUSIC :: string where
  "DANCE_MUSIC = ''/3d/idle.mp3''"

text \<open>
  Console output, by the method called. The message texts are those of the English copy
  of the component; \<^verbatim>\<open>src/app/page.tsx\<close> writes the same messages in Japanese.
\<close>

datatype console_entry = Log string | Warn string | Error string

text \<open>
  An invocation of the asynchronous \<^verbatim>\<open>loadModels\<close> is suspended at one of its two
  \<^verbatim>\<open>await\<close>s until the load it waits for settles: with the animation clips of the
  file, or with an error, which carries a message when it is an \<^verbatim>\<open>Error\<close> object.

  Of a clip one thing matters below: whether \<^verbatim>\<open>mixer.clipAction\<close> accepts the clip that
  \<^verbatim>\<open>retargetAnimation\<close> builds from it. The mixer parses the track names of a clip when
  it creates the action and throws on a name it cannot parse, such as
  \<^verbatim>\<open>function Object() { [native code] }.position\<close> or a name with an empty property.
  So a clip is given as that outcome, \<open>True\<close> for accepted. The character's own clips
  are handed to the mixer as loaded, under the names the loader built, which the mixer
  parses; for them only the number of clips is used.
\<close>

datatype task = AwaitCharacter | AwaitDance

type_synonym clip = bool

datatype settled = Resolved "clip list" | Rejected "string option"

text \<open>
  The state of the page: the module-level flag \<^verbatim>\<open>isLoading\<close> (line 112), the refs of
  the \<^verbatim>\<open>ThreeScene\<close> component (lines 116 to 132) that the modelled functions touch,
  the actions created by the mixer (by address), the console, the calls of
  \<^verbatim>\<open>props.onModelLoaded\<close>, and the suspended invocations of \<^verbatim>\<open>loadModels\<close>.
  \<open>modelRef\<close> and \<open>mixerRef\<close> hold the number of the load that created the object,
  since only their being null or not is ever tested.
\<close>

record scene =
  isLoading :: bool
  pending :: "task list"
  modelRef :: "nat option"
  mixerRef :: "nat option"
  actionsRef :: "string \<Rightarrow> addr option"
  currentActionRef :: "addr option"
  audioRef :: "audio option"
  danceAnimationsRef :: "clip list"
  actionStore :: "addr \<Rightarrow> action"
  nextAction :: addr
  loads :: nat
  console :: "console_entry list"
  onModelLoaded :: "(bool \<times> string option) list"

definition initial :: scene where
  "initial = \<lparr>isLoading = False, pending = [], modelRef = None, mixerRef = None,
     actionsRef = (\<lambda>name. None), currentActionRef = None, audioRef = None,
     danceAnimationsRef = [], actionStore = (\<lambda>a. new_action), nextAction = 0, loads = 0,
     console = [], onModelLoaded = []\<rparr>"

definition write_console :: "console_entry \<Rightarrow> scene \<Rightarrow> scene" where
  "write_console e s = s\<lparr>console := console s @ [e]\<rparr>"

definition update_action :: "addr \<Rightarrow> (action \<Rightarrow> action) \<Rightarrow> scene \<Rightarrow> scene" where
  "update_action a f s = s\<lparr>actionStore := (actionStore s)(a := f (actionStore s a))\<rparr>"

text \<open>
  \<^verbatim>\<open>mixer.clipAction(clip)\<close> for a clip the mixer has not seen: a new action. Every
  clip handed to it below is a different object (the clips of a loaded file, and the
  clips \<^verbatim>\<open>retargetAnimation\<close> has just built).
\<close>

definition clipAction :: "scene \<Rightarrow> addr \<times> scene" where
  "clipAction s =
    (nextAction s,
     s\<lparr>actionStore := (actionStore s)(nextAction s := new_action),
       nextAction := Suc (nextAction s)\<rparr>)"

text \<open>
  The loop of lines 202 to 205 over the character's clips,
  \<^verbatim>\<open>forEach((clip, index) => { ... actionsRef.current[`original_${index}`] = action })\<close>,
  by the indices of the clips.
\<close>

fun register :: "string \<Rightarrow> nat list \<Rightarrow> scene \<Rightarrow> scene" where
  "register prefix [] s = s"
| "register prefix (index # rest) s =
    (let (a, s') = clipAction s
     in register prefix rest (s'\<lparr>actionsRef := (actionsRef s')(prefix @ string_of_nat index \<mapsto> a)\<rparr>))"

text \<open>
  The loop of lines 166 to 170 over the motion clips, inside its \<^verbatim>\<open>try\<close> block: each
  clip is retargeted and handed to the mixer, and the action is stored under
  \<^verbatim>\<open>dance_\<close> and the index. When the mixer throws, the loop ends there: the clips
  before are registered, that clip and the clips after it are not. The result says
  whether an exception was thrown.
\<close>

fun register_retargeted :: "nat \<Rightarrow> clip list \<Rightarrow> scene \<Rightarrow> bool \<times> scene" where
  "register_retargeted index [] s = (False, s)"
| "register_retargeted index (accepted # rest) s =
    (if accepted then
       (let (a, s') = clipAction s
        in register_retargeted (Suc index) rest
             (s'\<lparr>actionsRef := (actionsRef s')(''dance_'' @ string_of_nat index \<mapsto> a)\<rparr>))
     else (True, s))"

text \<open>
  \<^verbatim>\<open>processExternalAnimations\<close> (lines 159 to 174): the guard, the loop, and the
  \<^verbatim>\<open>catch\<close> block, which logs the error and lets the caller go on.
\<close>

definition processExternalAnimations :: "scene \<Rightarrow> scene" where
  "processExternalAnimations s =
    (if danceAnimationsRef s = [] \<or> modelRef s = None \<or> mixerRef s = None
     then write_console (Warn ''Missing data required for animation processing'') s
     else (case register_retargeted 0 (danceAnimationsRef s) s of
             (False, s') \<Rightarrow> s'
           | (True, s') \<Rightarrow> write_console (Error ''Failed to process external animations:'') s'))"

text \<open>
  \<^verbatim>\<open>loadModels\<close> (lines 177 to 226), in three pieces: the call up to the first
  \<^verbatim>\<open>await\<close>, and what runs when the load awaited by the suspended invocation number
  \<open>k\<close> settles. \<open>failed\<close> is the \<^verbatim>\<open>catch\<close> block, \<open>finally_block\<close> the
  \<^verbatim>\<open>finally\<close> block, after which the invocation is over.
\<close>

definition loadModels :: "scene \<Rightarrow> scene" where
  "loadModels s =
    (if isLoading s then s
     else s\<lparr>isLoading := True, pending := pending s @ [AwaitCharacter]\<rparr>)"

definition failed :: "string option \<Rightarrow> scene \<Rightarrow> scene" where
  "failed err s =
    (let s1 = write_console (Error ''Failed to load model:'') s;
         errorMessage = (case err of Some m \<Rightarrow> m | None \<Rightarrow> ''Unknown error occurred'')
     in s1\<lparr>onModelLoaded := onModelLoaded s1 @ [(False, Some errorMessage)]\<rparr>)"

definition finally_block :: "nat \<Rightarrow> scene \<Rightarrow> scene" where
  "finally_block k s = s\<lparr>isLoading := False, pending := take k (pending s) @ drop (Suc k) (pending s)\<rparr>"

definition settle :: "nat \<Rightarrow> settled \<Rightarrow> scene \<Rightarrow> scene" where
  "settle k r s =
    (if k < length (pending s) then
       (case (pending s ! k, r) of
          (AwaitCharacter, Resolved clips) \<Rightarrow>
            (let s1 = s\<lparr>modelRef := Some (loads s), mixerRef := Some (loads s),
                        loads := Suc (loads s)\<rparr>;
                 s2 = (if length clips > 0
                       then register ''original_'' [0 ..< length clips] s1 else s1)
             in s2\<lparr>pending := (pending s2)[k := AwaitDance]\<rparr>)
        | (AwaitDance, Resolved clips) \<Rightarrow>
            (let s1 = s\<lparr>danceAnimationsRef := clips\<rparr>;
                 s2 = (if length (danceAnimationsRef s1) > 0
                       then processExternalAnimations s1 else s1);
                 s3 = s2\<lparr>onModelLoaded := onModelLoaded s2 @ [(True, None)]\<rparr>
             in finally_block k s3)
        | (_, Rejected err) \<Rightarrow> finally_block k (failed err s))
     else s)"

text \<open>
  \<^verbatim>\<open>playDanceAnimation\<close> (lines 373 to 403). The same file holds a second copy of the
  component, from line 604 on, in which the audio step is commented out; the copy modelled
  here is the first.
\<close>

definition playDanceAnimation :: "nat \<Rightarrow> scene \<Rightarrow> scene" where
  "playDanceAnimation index s0 =
    (let s1 = write_console (Log (''playDanceAnimation('' @ string_of_nat index @ '') called'')) s0;
         s2 = (case currentActionRef s1 of
                 Some a \<Rightarrow> update_action a stop (update_action a (fadeOut (1/2)) s1)
               | None \<Rightarrow> s1);
         s3 = (case audioRef s2 of
                 None \<Rightarrow> s2\<lparr>audioRef := Some ((new_Audio DANCE_MUSIC)\<lparr>audio_loop := True\<rparr>)\<rparr>
               | Some el \<Rightarrow> s2);
         s4 = s3\<lparr>audioRef := map_option audio_play (audioRef s3)\<rparr>;
         animationName = ''dance_'' @ string_of_nat index
     in (case (mixerRef s4, actionsRef s4 animationName) of
           (Some m, Some a) \<Rightarrow>
             write_console (Log (''Playing dance animation '' @ string_of_nat index))
               (update_action a (setLoop LoopRepeat \<infinity>)
                 (update_action a play
                   (update_action a (fadeIn (1/2))
                     (update_action a reset
                       (s4\<lparr>currentActionRef := Some a\<rparr>)))))
         | _ \<Rightarrow> write_console (Warn (''Dance animation '' @ animationName @ '' not found'')) s4))"

text \<open>
  The first two steps of \<^verbatim>\<open>playDanceAnimation\<close> do not depend on the index: the
  current action, if there is one, is told to fade out and is stopped; the audio element
  is created if need be and asked to play. \<open>stopped_store\<close> and \<open>started_audio\<close> are the
  action store and the audio ref they leave.
\<close>

definition stopped_store :: "scene \<Rightarrow> addr \<Rightarrow> action" where
  "stopped_store s =
    (case currentActionRef s of
       None \<Rightarrow> actionStore s
     | Some a \<Rightarrow> (actionStore s)(a := stop (fadeOut (1/2) (actionStore s a))))"

definition started_audio :: "scene \<Rightarrow> audio" where
  "started_audio s =
    audio_play (case audioRef s of
                  None \<Rightarrow> (new_Audio DANCE_MUSIC)\<lparr>audio_loop := True\<rparr>
                | Some el \<Rightarrow> el)"

text \<open>
  An action that has just been started by \<^verbatim>\<open>playDanceAnimation\<close>: at time zero, active
  in the mixer, enabled and not paused, fading in over half a time unit, repeating
  without end.
\<close>

definition restarted :: action where
  "restarted = \<lparr>time = 0, paused = False, enabled = True, scheduled = True,
     fading = Some (1/2, 0, 1), loop = LoopRepeat, repetitions = \<infinity>\<rparr>"

text \<open>The name under which the action of a dance clip is registered and looked up.\<close>

definition dance :: "nat \<Rightarrow> string" where
  "dance index = ''dance_'' @ string_of_nat index"

text \<open>
  What can happen to the page, and the state after a sequence of such events: a call of
  \<^verbatim>\<open>loadModels\<close>, the settling of the load that the suspended invocation number \<open>k\<close>
  awaits, and a call of \<^verbatim>\<open>playDanceAnimation\<close>. The render loop is not among them: it
  advances the time and the fade weight of the active actions and neither activates nor
  deactivates one (an action set to repeat without end does not finish).
\<close>

datatype event = LoadModels | Settle nat settled | PlayDance nat

fun step :: "scene \<Rightarrow> event \<Rightarrow> scene" where
  "step s LoadModels = loadModels s"
| "step s (Settle k r) = settle k r s"
| "step s (PlayDance index) = playDanceAnimation index s"

definition run :: "event list \<Rightarrow> scene" where
  "run events = foldl step initial events"

text \<open>
  An action is looping when it is active in the mixer, enabled, not paused, and set to
  repeat without end. The controller's discipline: no action but the current one is
  active.
\<close>

definition looping :: "action \<Rightarrow> bool" where
  "looping a \<longleftrightarrow> scheduled a \<and> enabled a \<and> \<not> paused a \<and> loop a = LoopRepeat \<and> repetitions a = \<infinity>"

definition discipline :: "scene \<Rightarrow> bool" where
  "discipline s \<longleftrightarrow> (\<forall>a. scheduled (actionStore s a) \<longrightarrow> currentActionRef s = Some a)"

text \<open>
  The table of actions is in order when every registered action has been created by the
  mixer (so there is a mixer), and no action is registered under two names.
\<close>

definition registry_ok :: "scene \<Rightarrow> bool" where
  "registry_ok s \<longleftrightarrow>
    (\<forall>name a. actionsRef s name = Some a \<longrightarrow> a < nextAction s \<and> mixerRef s \<noteq> None) \<and>
    (\<forall>name name' a. actionsRef s name = Some a \<and> actionsRef s name' = Some a \<longrightarrow> name = name')"

text \<open>At most one invocation of \<^verbatim>\<open>loadModels\<close> is suspended, and the flag says whether one is.\<close>

definition single_flight :: "scene \<Rightarrow> bool" where
  "single_flight s \<longleftrightarrow> length (pending s) \<le> 1 \<and> (isLoading s \<longleftrightarrow> pending s \<noteq> [])"

definition invariant :: "scene \<Rightarrow> bool" where
  "invariant s \<longleftrightarrow> single_flight s \<and> discipline s \<and> registry_ok s"

text \<open>
  Example states: \<open>loaded\<close> after a character file with one clip and a motion file with
  two clips have been loaded; \<open>dancing\<close> after the first dance has then been started;
  \<open>partly_loaded\<close> after a motion file with three clips, the second of which the mixer
  refuses once it is retargeted.
\<close>

definition loaded :: scene where
  "loaded = run [LoadModels, Settle 0 (Resolved [True]), Settle 0 (Resolved [True, True])]"

definition partly_loaded :: scene where
  "partly_loaded =
    run [LoadModels, Settle 0 (Resolved [True]), Settle 0 (Resolved [True, False, True])]"

definition dancing :: scene where
  "dancing =
    run [LoadModels, Settle 0 (Resolved [True]), Settle 0 (Resolved [True, True]), PlayDance 0]"

section \<open>Properties of the store\<close>

lemma frame_refl: "frame X h h"
  by (simp add: frame_def)

lemma frame_trans: "frame X h h1 \<Longrightarrow> frame X h1 h2 \<Longrightarrow> frame X h h2"
  by (auto simp: frame_def)

lemma frame_alloc: "frame X h (h @ [x])"
  by (simp add: frame_def nth_append)

lemma frame_update: "a \<in> X \<Longrightarrow> frame X h (h[a := x])"
  unfolding frame_def by (metis length_list_update nth_list_update_neq order_refl)

lemma frame_lift: "frame {} h0 h \<Longrightarrow> frame X h h' \<Longrightarrow> \<forall>a \<in> X. length h0 \<le> a \<Longrightarrow> frame {} h0 h'"
  unfolding frame_def by (metis leD le_trans less_le_trans)

lemma frame_empty_take: "frame {} h h' \<longleftrightarrow> take (length h) h' = h"
  by (auto simp: frame_def list_eq_iff_nth_eq)

lemma arrays_only_empty: "arrays_only {} h"
  by (simp add: arrays_only_def)

lemma arrays_only_single: "array_at h nt = Some xs \<Longrightarrow> arrays_only {nt} h"
  by (auto simp: arrays_only_def array_at_def deref_def split: if_splits option.splits obj.splits)

lemma array_at_length: "array_at h a = Some xs \<Longrightarrow> a < length h"
  by (auto simp: array_at_def deref_def split: if_splits)

lemma floats_at_length: "floats_at h a = Some xs \<Longrightarrow> a < length h"
  by (auto simp: floats_at_def deref_def split: if_splits)

lemma floats_at_frame:
  "frame X h h' \<Longrightarrow> arrays_only X h \<Longrightarrow> floats_at h a = Some xs \<Longrightarrow> floats_at h' a = Some xs"
  by (auto simp: frame_def arrays_only_def floats_at_def deref_def split: if_splits option.splits obj.splits)

lemma track_at_frame:
  "frame X h h' \<Longrightarrow> arrays_only X h \<Longrightarrow> track_at h a = Some t \<Longrightarrow> track_at h' a = Some t"
  by (auto simp: frame_def arrays_only_def track_at_def deref_def split: if_splits option.splits obj.splits)

lemma clip_at_frame:
  "frame X h h' \<Longrightarrow> arrays_only X h \<Longrightarrow> clip_at h a = Some t \<Longrightarrow> clip_at h' a = Some t"
  by (auto simp: frame_def arrays_only_def clip_at_def deref_def split: if_splits option.splits obj.splits)

lemma array_at_frame:
  "frame X h h' \<Longrightarrow> a \<notin> X \<Longrightarrow> array_at h a = Some t \<Longrightarrow> array_at h' a = Some t"
  by (auto simp: frame_def array_at_def deref_def split: if_splits option.splits obj.splits)

lemma read_track_parts:
  "read_track h t = Some c \<longleftrightarrow>
    (\<exists>name tms vls ts vs. track_at h t = Some (name, tms, vls) \<and> floats_at h tms = Some ts
       \<and> floats_at h vls = Some vs \<and> c = (name, ts, vs))"
  by (auto simp: read_track_def split: bind_splits)

lemma read_track_frame:
  assumes "frame X h h'" and "arrays_only X h" and "read_track h t = Some c"
  shows "read_track h' t = Some c"
proof -
  from assms(3) obtain name tms vls ts vs where
    t: "track_at h t = Some (name, tms, vls)" and ts: "floats_at h tms = Some ts"
    and vs: "floats_at h vls = Some vs" and c: "c = (name, ts, vs)"
    unfolding read_track_parts by blast
  show ?thesis
    using track_at_frame [OF assms(1,2) t] floats_at_frame [OF assms(1,2) ts]
      floats_at_frame [OF assms(1,2) vs] c
    by (simp add: read_track_def)
qed

lemma those_map_Some:
  "those (map f xs) = Some ys \<longleftrightarrow> length ys = length xs \<and> (\<forall>i < length xs. f (xs ! i) = Some (ys ! i))"
proof (induction xs arbitrary: ys)
  case Nil
  then show ?case by auto
next
  case (Cons x xs)
  show ?case
  proof (cases ys)
    case Nil
    then show ?thesis by (auto split: option.splits)
  next
    case (Cons y ys')
    then show ?thesis
      using Cons.IH [of ys'] by (auto split: option.splits simp: nth_Cons split: nat.splits)
  qed
qed

lemma those_Cons_Some:
  "those (map f (x # xs)) = Some ys \<longleftrightarrow>
    (\<exists>y ys'. f x = Some y \<and> those (map f xs) = Some ys' \<and> ys = y # ys')"
  by (auto split: option.splits)

lemma read_tracks_frame:
  "frame X h h' \<Longrightarrow> arrays_only X h \<Longrightarrow> those (map (read_track h) ts) = Some cs
    \<Longrightarrow> those (map (read_track h') ts) = Some cs"
  by (simp add: those_map_Some read_track_frame)

lemma read_clip_parts:
  "read_clip h clip = Some (name, d, cs) \<longleftrightarrow>
    (\<exists>arr tracks. clip_at h clip = Some (name, d, arr) \<and> array_at h arr = Some tracks
       \<and> those (map (read_track h) tracks) = Some cs)"
  by (auto simp: read_clip_def split: bind_splits)

lemma read_clip_frame:
  assumes "frame {} h h'" and "read_clip h clip = Some v"
  shows "read_clip h' clip = Some v"
proof -
  obtain name d cs where v: "v = (name, d, cs)"
    by (cases v) auto
  from assms(2) obtain arr tracks where
    "clip_at h clip = Some (name, d, arr)" "array_at h arr = Some tracks"
    "those (map (read_track h) tracks) = Some cs"
    unfolding v read_clip_parts by blast
  then have "clip_at h' clip = Some (name, d, arr)" "array_at h' arr = Some tracks"
    "those (map (read_track h') tracks) = Some cs"
    using clip_at_frame [OF assms(1) arrays_only_empty] array_at_frame [OF assms(1)]
      read_tracks_frame [OF assms(1) arrays_only_empty]
    by auto
  then show ?thesis
    unfolding v read_clip_parts by blast
qed

lemma fresh_track_frame:
  "frame X h h' \<Longrightarrow> arrays_only X h \<Longrightarrow> fresh_track n h t \<Longrightarrow> fresh_track n h' t"
  unfolding fresh_track_def by (blast dest: track_at_frame)

lemma track_at_alloc: "track_at (h @ [KeyframeTrack n a b]) (length h) = Some (n, a, b)"
  by (simp add: track_at_def deref_def)

section \<open>The deep copy\<close>

lemma clone_track_correct:
  assumes "read_track h t = Some c" and "n \<le> length h"
  shows "\<exists>t' h'. clone_track h t = Some (t', h') \<and> frame {} h h' \<and> read_track h' t' = Some c
          \<and> fresh_track n h' t'"
proof -
  from assms(1) obtain name tms vls ts vs where
    t: "track_at h t = Some (name, tms, vls)" and ts: "floats_at h tms = Some ts"
    and vs: "floats_at h vls = Some vs" and c: "c = (name, ts, vs)"
    unfolding read_track_parts by blast
  let ?h1 = "h @ [Float32Array ts]"
  let ?h2 = "?h1 @ [Float32Array vs]"
  let ?h3 = "?h2 @ [KeyframeTrack name (length h) (Suc (length h))]"
  have run: "clone_track h t = Some (Suc (Suc (length h)), ?h3)"
    by (simp add: clone_track_def t ts vs alloc_def)
  have fr: "frame {} h ?h3"
    by (intro frame_trans [OF frame_alloc frame_trans [OF frame_alloc frame_alloc]])
  have tr: "track_at ?h3 (Suc (Suc (length h))) = Some (name, length h, Suc (length h))"
    using track_at_alloc [of ?h2] by simp
  have f1: "floats_at ?h3 (length h) = Some ts"
    by (simp add: floats_at_def deref_def nth_append)
  have f2: "floats_at ?h3 (Suc (length h)) = Some vs"
    by (simp add: floats_at_def deref_def nth_append)
  have rd: "read_track ?h3 (Suc (Suc (length h))) = Some c"
    using tr f1 f2 c by (simp add: read_track_def)
  have fresh: "fresh_track n ?h3 (Suc (Suc (length h)))"
    unfolding fresh_track_def using tr assms(2) by auto
  show ?thesis using run fr rd fresh by blast
qed

lemma clone_tracks_correct:
  "those (map (read_track h) ts) = Some cs \<Longrightarrow> n \<le> length h \<Longrightarrow>
    \<exists>ts' h'. clone_tracks h ts = Some (ts', h') \<and> frame {} h h'
      \<and> those (map (read_track h') ts') = Some cs \<and> (\<forall>t \<in> set ts'. fresh_track n h' t)"
proof (induction ts arbitrary: h cs)
  case Nil
  then show ?case by (simp add: frame_refl)
next
  case (Cons t ts)
  from Cons.prems(1) obtain c cs' where
    c: "read_track h t = Some c" and rest: "those (map (read_track h) ts) = Some cs'"
    and cs: "cs = c # cs'"
    unfolding those_Cons_Some by blast
  from clone_track_correct [OF c Cons.prems(2)] obtain t' h1 where
    run1: "clone_track h t = Some (t', h1)" and fr1: "frame {} h h1"
    and rd1: "read_track h1 t' = Some c" and fresh1: "fresh_track n h1 t'"
    by blast
  have rest1: "those (map (read_track h1) ts) = Some cs'"
    using read_tracks_frame [OF fr1 arrays_only_empty rest] .
  have n1: "n \<le> length h1"
    using fr1 Cons.prems(2) by (simp add: frame_def)
  from Cons.IH [OF rest1 n1] obtain ts' h2 where
    run2: "clone_tracks h1 ts = Some (ts', h2)" and fr2: "frame {} h1 h2"
    and rd2: "those (map (read_track h2) ts') = Some cs'"
    and fresh2: "\<forall>t \<in> set ts'. fresh_track n h2 t"
    by blast
  have "clone_tracks h (t # ts) = Some (t' # ts', h2)"
    by (simp add: run1 run2)
  moreover have "frame {} h h2"
    using frame_trans [OF fr1 fr2] .
  moreover have "those (map (read_track h2) (t' # ts')) = Some cs"
    using read_track_frame [OF fr2 arrays_only_empty rd1] rd2 cs by simp
  moreover have "\<forall>t \<in> set (t' # ts'). fresh_track n h2 t"
    using fresh2 fresh_track_frame [OF fr2 arrays_only_empty fresh1] by simp
  ultimately show ?case by blast
qed

section \<open>The loop over the tracks\<close>

lemma retargeted_Nil: "retargeted [] = []"
  by (simp add: retargeted_def map_filter_simps)

lemma retargeted_Cons:
  "retargeted ((name, ts, vs) # cs) =
    (case retarget_name name of None \<Rightarrow> retargeted cs | Some name' \<Rightarrow> (name', ts, vs) # retargeted cs)"
  by (simp add: retargeted_def map_filter_simps split: option.splits)

lemma callback_skip:
  assumes "track_at h t = Some (name, tms, vls)" and "retarget_name name = None"
  shows "callback nt h t = Some h"
  using assms by (simp add: callback_def retarget_name_def Let_def split: if_splits)

lemma callback_emit:
  assumes t: "track_at h t = Some (name, tms, vls)" and vs: "floats_at h vls = Some vs"
    and nm: "retarget_name name = Some name'" and arr: "array_at h nt = Some acc"
  shows "callback nt h t =
    Some ((h @ [Float32Array vs, KeyframeTrack name' tms (length h)])[nt := Array (acc @ [Suc (length h)])])"
proof -
  have lt: "nt < length h"
    using arr by (rule array_at_length)
  have arr2: "array_at (h @ [Float32Array vs, KeyframeTrack name' tms (length h)]) nt = Some acc"
    using arr lt by (simp add: array_at_def deref_def nth_append)
  show ?thesis
    using nm arr2
    by (simp add: callback_def retarget_name_def Let_def t vs alloc_def push_def split: if_splits)
qed

lemma forEach_callback_correct:
  "array_at h nt = Some acc \<Longrightarrow> those (map (read_track h) ts) = Some cs \<Longrightarrow>
   \<forall>t \<in> set ts. fresh_track n h t \<Longrightarrow> n \<le> length h \<Longrightarrow>
    \<exists>h' new. forEach (callback nt) h ts = Some h' \<and> frame {nt} h h'
      \<and> array_at h' nt = Some (acc @ new)
      \<and> those (map (read_track h') new) = Some (retargeted cs)
      \<and> (\<forall>t \<in> set new. fresh_track n h' t)"
proof (induction ts arbitrary: h acc cs)
  case Nil
  then show ?case by (simp add: frame_refl retargeted_Nil)
next
  case (Cons t ts)
  from Cons.prems(2) obtain c cs' where
    c: "read_track h t = Some c" and rest: "those (map (read_track h) ts) = Some cs'"
    and cs: "cs = c # cs'"
    unfolding those_Cons_Some by blast
  from c obtain name tms vls tsv vs where
    t: "track_at h t = Some (name, tms, vls)" and tsv: "floats_at h tms = Some tsv"
    and vs: "floats_at h vls = Some vs" and c_eq: "c = (name, tsv, vs)"
    unfolding read_track_parts by blast
  have fresh_t: "n \<le> tms"
    using Cons.prems(3) t by (auto simp: fresh_track_def)
  have fresh_rest: "\<forall>t \<in> set ts. fresh_track n h t"
    using Cons.prems(3) by simp
  have ao: "arrays_only {nt} h"
    using Cons.prems(1) by (rule arrays_only_single)
  have lt: "nt < length h"
    using Cons.prems(1) by (rule array_at_length)
  show ?case
  proof (cases "retarget_name name")
    case None
    have step: "callback nt h t = Some h"
      using t None by (rule callback_skip)
    from Cons.IH [OF Cons.prems(1) rest fresh_rest Cons.prems(4)] obtain h' new where
      "forEach (callback nt) h ts = Some h'" "frame {nt} h h'" "array_at h' nt = Some (acc @ new)"
      "those (map (read_track h') new) = Some (retargeted cs')" "\<forall>t \<in> set new. fresh_track n h' t"
      by blast
    then show ?thesis
      using step None by (auto simp: cs c_eq retargeted_Cons)
  next
    case (Some name')
    let ?g = "h @ [Float32Array vs, KeyframeTrack name' tms (length h)]"
    let ?h1 = "?g[nt := Array (acc @ [Suc (length h)])]"
    have step: "callback nt h t = Some ?h1"
      using t vs Some Cons.prems(1) by (rule callback_emit)
    have fr1: "frame {nt} h ?h1"
      using frame_trans [OF frame_alloc [of "{nt}" h "Float32Array vs"]
          frame_trans [OF frame_alloc [of "{nt}" _ "KeyframeTrack name' tms (length h)"]
            frame_update [of nt "{nt}"]]]
      by simp
    have arr1: "array_at ?h1 nt = Some (acc @ [Suc (length h)])"
      using lt by (simp add: array_at_def deref_def)
    have ne: "nt \<noteq> length h" "nt \<noteq> Suc (length h)"
      using lt by auto
    have new_t: "track_at ?h1 (Suc (length h)) = Some (name', tms, length h)"
      using ne by (simp add: track_at_def deref_def nth_append)
    have new_v: "floats_at ?h1 (length h) = Some vs"
      using ne by (simp add: floats_at_def deref_def nth_append)
    have new_ts: "floats_at ?h1 tms = Some tsv"
      using floats_at_frame [OF fr1 ao tsv] .
    have rd_new: "read_track ?h1 (Suc (length h)) = Some (name', tsv, vs)"
      using new_t new_v new_ts by (simp add: read_track_def)
    have fresh_new: "fresh_track n ?h1 (Suc (length h))"
      unfolding fresh_track_def using new_t fresh_t Cons.prems(4) by auto
    have rest1: "those (map (read_track ?h1) ts) = Some cs'"
      using read_tracks_frame [OF fr1 ao rest] .
    have fresh_rest1: "\<forall>t \<in> set ts. fresh_track n ?h1 t"
      using fresh_rest fresh_track_frame [OF fr1 ao] by blast
    have n1: "n \<le> length ?h1"
      using Cons.prems(4) by simp
    from Cons.IH [OF arr1 rest1 fresh_rest1 n1] obtain h' new where
      run: "forEach (callback nt) ?h1 ts = Some h'" and fr2: "frame {nt} ?h1 h'"
      and arr2: "array_at h' nt = Some ((acc @ [Suc (length h)]) @ new)"
      and rd2: "those (map (read_track h') new) = Some (retargeted cs')"
      and fresh2: "\<forall>t \<in> set new. fresh_track n h' t"
      by blast
    have ao1: "arrays_only {nt} ?h1"
      using arr1 by (rule arrays_only_single)
    have "forEach (callback nt) h (t # ts) = Some h'"
      using step run by simp
    moreover have "frame {nt} h h'"
      using frame_trans [OF fr1 fr2] .
    moreover have "array_at h' nt = Some (acc @ (Suc (length h) # new))"
      using arr2 by simp
    moreover have "those (map (read_track h') (Suc (length h) # new)) = Some (retargeted cs)"
      using read_track_frame [OF fr2 ao1 rd_new] rd2 Some by (simp add: cs c_eq retargeted_Cons)
    moreover have "\<forall>t \<in> set (Suc (length h) # new). fresh_track n h' t"
      using fresh2 fresh_track_frame [OF fr2 ao1 fresh_new] by simp
    ultimately show ?thesis by blast
  qed
qed

section \<open>The whole of retargetAnimation\<close>

lemma resetDuration_total:
  "those (map (read_track h) ts) = Some cs \<Longrightarrow> \<exists>d. resetDuration h ts = Some d"
proof (induction ts arbitrary: cs)
  case Nil
  show ?case by simp
next
  case (Cons t ts)
  from Cons.prems obtain c cs' where
    c: "read_track h t = Some c" and rest: "those (map (read_track h) ts) = Some cs'"
    unfolding those_Cons_Some by blast
  from c obtain name tms vls tsv where
    "track_at h t = Some (name, tms, vls)" "floats_at h tms = Some tsv"
    unfolding read_track_parts by blast
  moreover from Cons.IH [OF rest] obtain d where "resetDuration h ts = Some d" ..
  ultimately show ?case by simp
qed

lemma new_AnimationClip_correct:
  assumes "array_at h arr = Some new" and "those (map (read_track h) new) = Some cs"
  shows "\<exists>d'. new_AnimationClip h name d arr = Some (length h, h @ [AnimationClip name d' arr])
          \<and> (0 \<le> d \<longrightarrow> d' = d)"
proof (cases "d < 0")
  case True
  from resetDuration_total [OF assms(2)] obtain d' where "resetDuration h new = Some d'" ..
  then show ?thesis
    using True assms(1) by (simp add: new_AnimationClip_def alloc_def)
next
  case False
  then show ?thesis
    by (simp add: new_AnimationClip_def alloc_def)
qed

lemma retargetAnimation_correct:
  assumes "read_clip h clip = Some (name, d, cs)"
  shows "\<exists>r h' d' arr new. retargetAnimation h clip = Some (r, h') \<and> frame {} h h'
          \<and> clip_at h' r = Some (name, d', arr) \<and> (0 \<le> d \<longrightarrow> d' = d)
          \<and> array_at h' arr = Some new
          \<and> those (map (read_track h') new) = Some (retargeted cs)
          \<and> (\<forall>t \<in> set new. fresh_track (length h) h' t)"
proof -
  from assms obtain arr tracks where
    cl: "clip_at h clip = Some (name, d, arr)" and ar: "array_at h arr = Some tracks"
    and rd: "those (map (read_track h) tracks) = Some cs"
    unfolding read_clip_parts by blast
  from clone_tracks_correct [OF rd order_refl] obtain tracks' g where
    cln: "clone_tracks h tracks = Some (tracks', g)" and fr_g: "frame {} h g"
    and rd_g: "those (map (read_track g) tracks') = Some cs"
    and fresh_g: "\<forall>t \<in> set tracks'. fresh_track (length h) g t"
    by blast
  let ?h1 = "g @ [Array tracks', AnimationClip name d (length g)]"
  let ?h2 = "?h1 @ [Array []]"
  let ?nt = "Suc (Suc (length g))"
  have parse: "parse_toJSON h clip = Some (Suc (length g), ?h1)"
    by (simp add: parse_toJSON_def cl ar cln alloc_def)
  have fr_h2: "frame {} g ?h2"
    by (simp add: frame_def nth_append)
  have newClip: "clip_at ?h2 (Suc (length g)) = Some (name, d, length g)"
    by (simp add: clip_at_def deref_def nth_append)
  have arr': "array_at ?h2 (length g) = Some tracks'"
    by (simp add: array_at_def deref_def nth_append)
  have nt: "array_at ?h2 ?nt = Some []"
    by (simp add: array_at_def deref_def nth_append)
  have rd_h2: "those (map (read_track ?h2) tracks') = Some cs"
    using read_tracks_frame [OF fr_h2 arrays_only_empty rd_g] .
  have fresh_h2: "\<forall>t \<in> set tracks'. fresh_track (length h) ?h2 t"
    using fresh_g fresh_track_frame [OF fr_h2 arrays_only_empty] by blast
  have len: "length h \<le> length ?h2"
    using fr_g by (simp add: frame_def)
  from forEach_callback_correct [OF nt rd_h2 fresh_h2 len] obtain h3 new where
    run: "forEach (callback ?nt) ?h2 tracks' = Some h3" and fr_h3: "frame {?nt} ?h2 h3"
    and arr3: "array_at h3 ?nt = Some new"
    and rd3: "those (map (read_track h3) new) = Some (retargeted cs)"
    and fresh3: "\<forall>t \<in> set new. fresh_track (length h) h3 t"
    by auto
  have fr_02: "frame {} h ?h2"
    using frame_trans [OF fr_g fr_h2] .
  have fr_03: "frame {} h h3"
    using frame_lift [OF fr_02 fr_h3] fr_g by (simp add: frame_def)
  have cl3: "clip_at h3 clip = Some (name, d, arr)"
    using clip_at_frame [OF fr_03 arrays_only_empty cl] .
  from new_AnimationClip_correct [OF arr3 rd3, of name d] obtain d' where
    fin: "new_AnimationClip h3 name d ?nt = Some (length h3, h3 @ [AnimationClip name d' ?nt])"
    and d': "0 \<le> d \<longrightarrow> d' = d"
    by blast
  let ?h4 = "h3 @ [AnimationClip name d' ?nt]"
  have fr_34: "frame {} h3 ?h4"
    by (rule frame_alloc)
  have "retargetAnimation h clip = Some (length h3, ?h4)"
    using parse newClip arr' run cl3 fin
    by (simp add: retargetAnimation_def alloc_def)
  moreover have "frame {} h ?h4"
    using frame_trans [OF fr_03 fr_34] .
  moreover have "clip_at ?h4 (length h3) = Some (name, d', ?nt)"
    by (simp add: clip_at_def deref_def)
  moreover have "array_at ?h4 ?nt = Some new"
    using array_at_frame [OF fr_34 _ arr3] by simp
  moreover have "those (map (read_track ?h4) new) = Some (retargeted cs)"
    using read_tracks_frame [OF fr_34 arrays_only_empty rd3] .
  moreover have "\<forall>t \<in> set new. fresh_track (length h) ?h4 t"
    using fresh3 fresh_track_frame [OF fr_34 arrays_only_empty] by blast
  ultimately show ?thesis
    using d' by blast
qed

section \<open>Track names\<close>

lemma split_not_Nil: "split c s \<noteq> []"
  by (induction s) (auto split: list.splits)

lemma hd_split: "hd (split c s) = takeWhile (\<lambda>x. x \<noteq> c) s"
  by (induction s) (auto split: list.splits simp: split_not_Nil)

lemma element_split_0: "to_string (element (split c s) 0) = takeWhile (\<lambda>x. x \<noteq> c) s"
  using split_not_Nil [of c s] hd_split [of c s]
  by (cases "split c s") (auto simp: element_def)

lemma boneMapping_values:
  "\<forall>(k, v) \<in> set boneMapping. v \<noteq> [] \<and> CHR ''.'' \<notin> set v"
  unfolding boneMapping_def by simp

lemma boneMapping_value_nonempty: "map_of boneMapping k = Some v \<Longrightarrow> v \<noteq> []"
  using boneMapping_values by (auto dest: map_of_SomeD)

lemma boneMapping_value_no_dot: "map_of boneMapping k = Some v \<Longrightarrow> CHR ''.'' \<notin> set v"
  using boneMapping_values by (auto dest: map_of_SomeD)

lemma retarget_name_truthy:
  "retarget_name name = None \<longleftrightarrow> \<not> truthy (get_property boneMapping (boneName_of name))"
  by (simp add: retarget_name_def Let_def element_split_0 boneName_of_def)

lemma retarget_name_own:
  assumes "\<not> inherited_name (boneName_of name)"
  shows "retarget_name name =
    map_option (\<lambda>m. m @ ''.'' @ property_of name) (map_of boneMapping (boneName_of name))"
proof -
  have "map_of objectPrototype (boneName_of name) = None"
    using assms by (simp add: inherited_name_def map_of_eq_None_iff)
  then show ?thesis
    by (auto simp: retarget_name_def Let_def element_split_0 boneName_of_def get_property_def
        property_of_def split: option.splits dest: boneMapping_value_nonempty)
qed

lemma retargeted_own:
  assumes "\<forall>c \<in> set cs. \<not> inherited_name (boneName_of (fst c))"
  shows "retargeted cs = List.map_filter rename_by_table cs"
  using assms
proof (induction cs)
  case Nil
  show ?case by (simp add: retargeted_Nil map_filter_simps)
next
  case (Cons c cs)
  obtain n ts vs where c: "c = (n, ts, vs)"
    by (cases c) auto
  have "\<not> inherited_name (boneName_of n)"
    using Cons.prems c by simp
  then have "retarget_name n = map_option (\<lambda>m. m @ ''.'' @ property_of n) (map_of boneMapping (boneName_of n))"
    by (rule retarget_name_own)
  moreover have "retargeted cs = List.map_filter rename_by_table cs"
    using Cons by simp
  moreover have "rename_by_table (n, ts, vs) =
      map_option (\<lambda>m. (m @ ''.'' @ property_of n, ts, vs)) (map_of boneMapping (boneName_of n))"
    by (simp add: rename_by_table_def)
  ultimately show ?case
    by (simp add: c retargeted_Cons map_filter_simps split: option.splits)
qed

lemma retargeted_none:
  assumes "\<forall>c \<in> set cs. \<not> truthy (get_property boneMapping (boneName_of (fst c)))"
  shows "retargeted cs = []"
  using assms
proof (induction cs)
  case Nil
  show ?case by (simp add: retargeted_Nil)
next
  case (Cons c cs)
  obtain n ts vs where c: "c = (n, ts, vs)"
    by (cases c) auto
  have "retarget_name n = None"
    using Cons.prems c by (simp add: retarget_name_truthy)
  then show ?case
    using Cons by (simp add: c retargeted_Cons)
qed

section \<open>Sample arrays\<close>

lemma track_arrays_all:
  "\<forall>t \<in> set ts. \<exists>name tms vls. track_at h t = Some (name, tms, vls) \<and> P tms \<and> P vls \<Longrightarrow>
    \<exists>as. those (map (track_arrays h) ts) = Some as \<and> (\<forall>a \<in> set (concat as). P a)"
proof (induction ts)
  case Nil
  show ?case by simp
next
  case (Cons t ts)
  from Cons.prems obtain name tms vls where
    t: "track_at h t = Some (name, tms, vls)" "P tms" "P vls"
    by auto
  from Cons obtain as where
    as: "those (map (track_arrays h) ts) = Some as" "\<forall>a \<in> set (concat as). P a"
    by auto
  have "those (map (track_arrays h) (t # ts)) = Some ([tms, vls] # as)"
    using t(1) as(1) by (simp add: track_arrays_def)
  moreover have "\<forall>a \<in> set (concat ([tms, vls] # as)). P a"
    using t(2,3) as(2) by auto
  ultimately show ?case by blast
qed

lemma sample_arrays_old:
  assumes "read_clip h clip = Some (name, d, cs)"
  shows "\<exists>as. sample_arrays h clip = Some as \<and> (\<forall>a \<in> set as. a < length h)"
proof -
  from assms obtain arr tracks where
    cl: "clip_at h clip = Some (name, d, arr)" and ar: "array_at h arr = Some tracks"
    and rd: "those (map (read_track h) tracks) = Some cs"
    unfolding read_clip_parts by blast
  have "\<forall>t \<in> set tracks. \<exists>name tms vls. track_at h t = Some (name, tms, vls)
      \<and> tms < length h \<and> vls < length h"
  proof
    fix t assume "t \<in> set tracks"
    then obtain i where "i < length tracks" "t = tracks ! i"
      by (auto simp: in_set_conv_nth)
    then have "read_track h t = Some (cs ! i)"
      using rd by (simp add: those_map_Some)
    then show "\<exists>name tms vls. track_at h t = Some (name, tms, vls) \<and> tms < length h \<and> vls < length h"
      unfolding read_track_parts by (blast dest: floats_at_length)
  qed
  from track_arrays_all [OF this] obtain as where
    "those (map (track_arrays h) tracks) = Some as" "\<forall>a \<in> set (concat as). a < length h"
    by blast
  then show ?thesis
    using cl ar by (simp add: sample_arrays_def)
qed

lemma sample_arrays_new:
  assumes "clip_at h r = Some (name, d, arr)" and "array_at h arr = Some new"
    and "\<forall>t \<in> set new. fresh_track n h t"
  shows "\<exists>bs. sample_arrays h r = Some bs \<and> (\<forall>b \<in> set bs. n \<le> b)"
proof -
  have "\<forall>t \<in> set new. \<exists>name tms vls. track_at h t = Some (name, tms, vls) \<and> n \<le> tms \<and> n \<le> vls"
    using assms(3) by (simp add: fresh_track_def)
  from track_arrays_all [OF this] obtain bs where
    "those (map (track_arrays h) new) = Some bs" "\<forall>b \<in> set (concat bs). n \<le> b"
    by blast
  then show ?thesis
    using assms(1,2) by (simp add: sample_arrays_def)
qed

lemma retarget_and_read_correct:
  assumes "read_clip h clip = Some (name, d, cs)"
  shows "\<exists>d'. retarget_and_read h clip = Some (name, d', retargeted cs) \<and> (0 \<le> d \<longrightarrow> d' = d)"
proof -
  from retargetAnimation_correct [OF assms] obtain r h' d' arr new where
    "retargetAnimation h clip = Some (r, h')" "clip_at h' r = Some (name, d', arr)"
    "0 \<le> d \<longrightarrow> d' = d" "array_at h' arr = Some new"
    "those (map (read_track h') new) = Some (retargeted cs)"
    by blast
  then show ?thesis
    by (auto simp: retarget_and_read_def read_clip_def)
qed

section \<open>Claims about retargetAnimation\<close>

text \<open>
  Claim C1: the returned clip has exactly one track for each source track whose bone
  name is a key of \<^verbatim>\<open>boneMapping\<close>, and none for any other source track. The code
  tests \<^verbatim>\<open>boneMapping[boneName]\<close> for truthiness, and that lookup also finds the
  properties the table inherits from \<^verbatim>\<open>Object.prototype\<close>. For the one-track clip of
  \<open>inherited_constructor\<close> the bone name \<^verbatim>\<open>constructor\<close> is not a key of the table, and
  yet the returned clip has a track, named after the text of the built-in function.
\<close>

theorem retargetAnimation_inherited_key:
  "read_clip inherited_constructor 4 = Some (''dance'', 0, [(''constructor.position'', [0], [0, 0, 0])])
   \<and> map_of boneMapping (boneName_of ''constructor.position'') = None
   \<and> retarget_and_read inherited_constructor 4 =
       Some (''dance'', 0, [(''function Object() { [native code] }.position'', [0], [0, 0, 0])])"
  by code_simp

text \<open>
  Apart from those inherited names the table decides: every track whose bone name is a
  key is kept, every other is dropped, and the number of tracks is the number of source
  tracks with a mapped bone name.
\<close>

lemma retargetAnimation_track_count:
  assumes "read_clip h clip = Some (name, d, cs)"
    and "\<forall>c \<in> set cs. \<not> inherited_name (boneName_of (fst c))"
  shows "\<exists>d' cs'. retarget_and_read h clip = Some (name, d', cs')
    \<and> length cs' = length (filter (\<lambda>c. boneName_of (fst c) \<in> fst ` set boneMapping) cs)"
proof -
  from retarget_and_read_correct [OF assms(1)] obtain d' where
    run: "retarget_and_read h clip = Some (name, d', retargeted cs)"
    by blast
  have "length (List.map_filter rename_by_table cs) =
      length (filter (\<lambda>c. boneName_of (fst c) \<in> fst ` set boneMapping) cs)"
  proof (induction cs)
    case Nil
    show ?case by (simp add: map_filter_simps)
  next
    case (Cons c cs)
    obtain n ts vs where c: "c = (n, ts, vs)"
      by (cases c) auto
    show ?case
      using Cons
      by (auto simp: c map_filter_simps rename_by_table_def map_of_eq_None_iff [symmetric]
          split: option.splits)
  qed
  then show ?thesis
    using run retargeted_own [OF assms(2)] by simp
qed

text \<open>
  Claim C2: the returned clip has the name and the duration of the source clip; in
  particular a source clip with no mappable bone name gives a clip with no tracks and
  that name and duration. The second part fails on the code for the same reason as
  claim C1: in the one-track clip of \<open>inherited_toString\<close> the bone name
  \<^verbatim>\<open>toString\<close> is not a key of the table, so the clip has no mappable bone name, and
  the returned clip keeps name and duration but has one track, not none.
\<close>

theorem retargetAnimation_inherited_not_empty:
  "read_clip inherited_toString 4 =
     Some (''idle'', 2, [(''toString.scale'', [0, 2], [1, 1, 1, 2, 2, 2])])
   \<and> boneName_of ''toString.scale'' \<notin> fst ` set boneMapping
   \<and> retarget_and_read inherited_toString 4 =
       Some (''idle'', 2,
         [(''function toString() { [native code] }.scale'', [0, 2], [1, 1, 1, 2, 2, 2])])
   \<and> retarget_and_read inherited_toString 4 \<noteq> Some (''idle'', 2, [])"
  by code_simp

text \<open>
  What holds of the claim. The name and the duration are kept for every source clip (a
  clip that three.js built has a duration that is not negative), and the call succeeds.
  A clip none of whose bone names is a key of the table, or an inherited name, comes
  back without tracks.
\<close>

lemma retargetAnimation_name_and_duration:
  assumes "read_clip h clip = Some (name, d, cs)" and "0 \<le> d"
  shows "retarget_and_read h clip = Some (name, d, retargeted cs)"
  using retarget_and_read_correct [OF assms(1)] assms(2) by auto

lemma retargetAnimation_nothing_mapped:
  assumes "read_clip h clip = Some (name, d, cs)" and "0 \<le> d"
    and "\<forall>c \<in> set cs. boneName_of (fst c) \<notin> fst ` set boneMapping"
    and "\<forall>c \<in> set cs. \<not> inherited_name (boneName_of (fst c))"
  shows "retarget_and_read h clip = Some (name, d, [])"
proof -
  have "\<not> truthy (get_property boneMapping (boneName_of (fst c)))" if "c \<in> set cs" for c
  proof -
    have "map_of boneMapping (boneName_of (fst c)) = None"
      using assms(3) that by (simp add: map_of_eq_None_iff)
    moreover have "map_of objectPrototype (boneName_of (fst c)) = None"
      using assms(4) that by (simp add: inherited_name_def map_of_eq_None_iff)
    ultimately show ?thesis
      by (simp add: get_property_def)
  qed
  then have "retargeted cs = []"
    using retargeted_none [of cs] by blast
  then show ?thesis
    using retargetAnimation_name_and_duration [OF assms(1,2)] by simp
qed

lemma retargetAnimation_nothing_mapped_example:
  "retarget_and_read unmapped 4 = Some (''wag'', 2, [])"
  by code_simp

text \<open>
  Claim C3: the call does not change the source clip. Every object that was in the store
  before the call is the same after it, so the source clip reads as before (name,
  duration, track list, track names and all samples); and no sample array of the returned
  clip is a sample array of the source clip.
\<close>

theorem retargetAnimation_leaves_source_untouched:
  assumes "read_clip h clip = Some v"
  shows "\<exists>r h' as bs. retargetAnimation h clip = Some (r, h')
    \<and> take (length h) h' = h
    \<and> read_clip h' clip = Some v
    \<and> sample_arrays h clip = Some as \<and> sample_arrays h' r = Some bs
    \<and> set as \<inter> set bs = {}"
proof -
  obtain name d cs where v: "v = (name, d, cs)"
    by (cases v) auto
  from retargetAnimation_correct [OF assms [unfolded v]] obtain r h' d' arr new where
    run: "retargetAnimation h clip = Some (r, h')" and fr: "frame {} h h'"
    and cl: "clip_at h' r = Some (name, d', arr)" and ar: "array_at h' arr = Some new"
    and fresh: "\<forall>t \<in> set new. fresh_track (length h) h' t"
    by blast
  from sample_arrays_old [OF assms [unfolded v]] obtain as where
    as: "sample_arrays h clip = Some as" "\<forall>a \<in> set as. a < length h"
    by blast
  from sample_arrays_new [OF cl ar fresh] obtain bs where
    bs: "sample_arrays h' r = Some bs" "\<forall>b \<in> set bs. length h \<le> b"
    by blast
  have "set as \<inter> set bs = {}"
    using as(2) bs(2) by fastforce
  moreover have "take (length h) h' = h"
    using fr by (simp add: frame_empty_take)
  moreover have "read_clip h' clip = Some v"
    using read_clip_frame [OF fr assms] .
  ultimately show ?thesis
    using run as(1) bs(1) by blast
qed

theorem retargetAnimation_leaves_source_untouched_witness:
  "read_clip scenario 7 =
     Some (''dance'', 1, [(''hips_JNT.position'', [0, 1], [0, 0, 0, 1, 2, 3]),
                          (''tail_JNT.rotation'', [0], [0, 0, 0, 1])])
   \<and> (\<exists>r h' as bs. retargetAnimation scenario 7 = Some (r, h')
        \<and> take (length scenario) h' = scenario
        \<and> read_clip h' 7 =
            Some (''dance'', 1, [(''hips_JNT.position'', [0, 1], [0, 0, 0, 1, 2, 3]),
                                 (''tail_JNT.rotation'', [0], [0, 0, 0, 1])])
        \<and> sample_arrays scenario 7 = Some as \<and> sample_arrays h' r = Some bs
        \<and> set as \<inter> set bs = {})"
proof -
  have rd: "read_clip scenario 7 =
     Some (''dance'', 1, [(''hips_JNT.position'', [0, 1], [0, 0, 0, 1, 2, 3]),
                          (''tail_JNT.rotation'', [0], [0, 0, 0, 1])])"
    by code_simp
  show ?thesis
    using rd retargetAnimation_leaves_source_untouched [OF rd] by blast
qed

text \<open>
  Claim C4, as stated: a track whose identifier does not split into exactly two parts is
  skipped and logged. The code has no such check and writes nothing to the console in
  \<^verbatim>\<open>retargetAnimation\<close>: the identifier \<^verbatim>\<open>hips_JNT\<close> has one part only, and the clip
  of \<open>odd_names\<close> comes back with a track \<^verbatim>\<open>J_Bip_C_Hips.undefined\<close> made from it (and
  one made from the three-part \<^verbatim>\<open>head_JNT.position.x\<close>).
\<close>

theorem retargetAnimation_malformed_counterexample:
  "malformed ''hips_JNT'' \<and> malformed ''head_JNT.position.x''
   \<and> read_clip odd_names 7 =
       Some (''dance'', 1,
         [(''hips_JNT'', [0, 1], [1, 2, 3, 4, 5, 6]),
          (''head_JNT.position.x'', [0, 1], [1, 2, 3, 4, 5, 6]),
          (''tail_JNT'', [0, 1], [1, 2, 3, 4, 5, 6]),
          (''spine_JNT.position'', [0, 1], [1, 2, 3, 4, 5, 6])])
   \<and> retarget_and_read odd_names 7 =
       Some (''dance'', 1,
         [(''J_Bip_C_Hips.undefined'', [0, 1], [1, 2, 3, 4, 5, 6]),
          (''J_Bip_C_Head.position'', [0, 1], [1, 2, 3, 4, 5, 6]),
          (''J_Bip_C_Spine.position'', [0, 1], [1, 2, 3, 4, 5, 6])])"
  by code_simp

text \<open>
  Claim C4, amended: \<^verbatim>\<open>retargetAnimation\<close> does not look at the shape of a track
  identifier. It takes the part before the first dot as the bone name and the part
  between the first and the second dot as the property (the text \<^verbatim>\<open>undefined\<close> when
  there is no dot). Whatever the shape, a track whose bone name is a key of the table is
  kept, renamed to the mapped joint, a dot and that property, with its samples; a track
  whose bone name is not a key is dropped without a message. The call raises no error,
  and the well-formed tracks of the clip are retargeted as in a clip without malformed
  ones. (Bone names that are names of inherited properties are left aside here.)
\<close>

theorem retargetAnimation_ignores_shape:
  assumes "read_clip h clip = Some (name, d, cs)"
    and "\<forall>c \<in> set cs. \<not> inherited_name (boneName_of (fst c))"
  shows "\<exists>d'. retarget_and_read h clip = Some (name, d', List.map_filter rename_by_table cs)"
  using retarget_and_read_correct [OF assms(1)] retargeted_own [OF assms(2)] by auto

theorem retargetAnimation_ignores_shape_witness:
  "read_clip odd_names 7 =
       Some (''dance'', 1,
         [(''hips_JNT'', [0, 1], [1, 2, 3, 4, 5, 6]),
          (''head_JNT.position.x'', [0, 1], [1, 2, 3, 4, 5, 6]),
          (''tail_JNT'', [0, 1], [1, 2, 3, 4, 5, 6]),
          (''spine_JNT.position'', [0, 1], [1, 2, 3, 4, 5, 6])])
   \<and> \<not> inherited_name (boneName_of ''hips_JNT'')
   \<and> \<not> inherited_name (boneName_of ''head_JNT.position.x'')
   \<and> \<not> inherited_name (boneName_of ''tail_JNT'')
   \<and> \<not> inherited_name (boneName_of ''spine_JNT.position'')
   \<and> (\<exists>d'. retarget_and_read odd_names 7 =
         Some (''dance'', d',
           [(''J_Bip_C_Hips.undefined'', [0, 1], [1, 2, 3, 4, 5, 6]),
            (''J_Bip_C_Head.position'', [0, 1], [1, 2, 3, 4, 5, 6]),
            (''J_Bip_C_Spine.position'', [0, 1], [1, 2, 3, 4, 5, 6])]))"
proof -
  let ?cs = "[(''hips_JNT'', [0, 1], [1, 2, 3, 4, 5, 6]),
          (''head_JNT.position.x'', [0, 1], [1, 2, 3, 4, 5, 6]),
          (''tail_JNT'', [0, 1], [1, 2, 3, 4, 5, 6]),
          (''spine_JNT.position'', [0, 1 :: real], [1, 2, 3, 4, 5, 6 :: real])]"
  have rd: "read_clip odd_names 7 = Some (''dance'', 1, ?cs)"
    by code_simp
  have own: "\<not> inherited_name (boneName_of ''hips_JNT'')"
    "\<not> inherited_name (boneName_of ''head_JNT.position.x'')"
    "\<not> inherited_name (boneName_of ''tail_JNT'')"
    "\<not> inherited_name (boneName_of ''spine_JNT.position'')"
    by code_simp+
  have all: "\<forall>c \<in> set ?cs. \<not> inherited_name (boneName_of (fst c))"
    using own by simp
  have out: "List.map_filter rename_by_table ?cs =
      [(''J_Bip_C_Hips.undefined'', [0, 1], [1, 2, 3, 4, 5, 6]),
       (''J_Bip_C_Head.position'', [0, 1], [1, 2, 3, 4, 5, 6]),
       (''J_Bip_C_Spine.position'', [0, 1], [1, 2, 3, 4, 5, 6])]"
    by code_simp
  show ?thesis
    using rd own retargetAnimation_ignores_shape [OF rd all] unfolding out by blast
qed

text \<open>
  Claim C10: every track of the returned clip has a name whose part before the first dot
  is a value of \<^verbatim>\<open>boneMapping\<close>, and the tracks come in the order of their source
  tracks. The lookup \<^verbatim>\<open>boneMapping[boneName]\<close> also finds inherited properties: for the
  clip of \<open>inherited_proto\<close>, with the bone name \<^verbatim>\<open>__proto__\<close>, the returned track is named
  \<^verbatim>\<open>[object Object].quaternion\<close>, and \<^verbatim>\<open>[object Object]\<close> is no joint of the table.
\<close>

theorem retargetAnimation_inherited_prefix:
  "retarget_and_read inherited_proto 4 =
     Some (''dance'', 0, [(''[object Object].quaternion'', [0], [0, 0, 0, 1])])
   \<and> boneName_of ''[object Object].quaternion'' \<notin> snd ` set boneMapping"
  by code_simp

text \<open>
  Apart from the inherited names, the bone name of every returned track is a value of
  the table, and the returned tracks are the kept source tracks in their order (they are
  \<open>List.map_filter rename_by_table\<close> of the source tracks, by \<open>retargeted_own\<close>).
\<close>

lemma rename_by_table_prefix:
  assumes "rename_by_table c = Some c'"
  shows "boneName_of (fst c') \<in> snd ` set boneMapping"
proof -
  obtain n ts vs where c: "c = (n, ts, vs)"
    by (cases c) auto
  from assms obtain m where
    m: "map_of boneMapping (boneName_of n) = Some m" and c': "c' = (m @ ''.'' @ property_of n, ts, vs)"
    by (auto simp: c rename_by_table_def)
  have "CHR ''.'' \<notin> set m"
    using m by (rule boneMapping_value_no_dot)
  then have "\<And>x. x \<in> set m \<Longrightarrow> x \<noteq> CHR ''.''"
    by auto
  then have "takeWhile (\<lambda>c. c \<noteq> CHR ''.'') (m @ ''.'' @ property_of n) =
      m @ takeWhile (\<lambda>c. c \<noteq> CHR ''.'') (''.'' @ property_of n)"
    by (rule takeWhile_append2)
  then have "boneName_of (m @ ''.'' @ property_of n) = m"
    by (simp add: boneName_of_def)
  moreover have "m \<in> snd ` set boneMapping"
    using map_of_SomeD [OF m] by force
  ultimately show ?thesis
    by (simp add: c')
qed

section \<open>Printing an index\<close>

lemma string_of_nat_not_Nil: "string_of_nat n \<noteq> []"
  by (subst string_of_nat.simps) simp

lemma digit_inject:
  assumes "char_of (48 + a) = (char_of (48 + b) :: char)" and "a < 10" and "b < 10"
  shows "a = (b :: nat)"
proof -
  have "(48 + a) mod 256 = (48 + b) mod 256"
    using assms(1) by (simp add: char_of_eq_iff take_bit_eq_mod)
  then show ?thesis
    using assms(2,3) by simp
qed

lemma string_of_nat_inject: "string_of_nat n = string_of_nat m \<Longrightarrow> n = m"
proof (induction n arbitrary: m rule: string_of_nat.induct)
  case (1 n)
  show ?case
  proof (cases "n < 10")
    case True
    then have n: "string_of_nat n = [char_of (48 + n)]"
      by (subst string_of_nat.simps) simp
    show ?thesis
    proof (cases "m < 10")
      case True
      then have "string_of_nat m = [char_of (48 + m)]"
        by (subst string_of_nat.simps) simp
      then show ?thesis
        using n "1.prems" \<open>n < 10\<close> True by (auto dest: digit_inject)
    next
      case False
      then have "string_of_nat m = string_of_nat (m div 10) @ [char_of (48 + m mod 10)]"
        by (subst string_of_nat.simps) simp
      then show ?thesis
        using n "1.prems" string_of_nat_not_Nil [of "m div 10"] by simp
    qed
  next
    case False
    then have n: "string_of_nat n = string_of_nat (n div 10) @ [char_of (48 + n mod 10)]"
      by (subst string_of_nat.simps) simp
    show ?thesis
    proof (cases "m < 10")
      case True
      then have "string_of_nat m = [char_of (48 + m)]"
        by (subst string_of_nat.simps) simp
      then show ?thesis
        using n "1.prems" string_of_nat_not_Nil [of "n div 10"] by simp
    next
      case m: False
      then have "string_of_nat m = string_of_nat (m div 10) @ [char_of (48 + m mod 10)]"
        by (subst string_of_nat.simps) simp
      then have eq: "string_of_nat (n div 10) = string_of_nat (m div 10)"
        and last: "char_of (48 + n mod 10) = (char_of (48 + m mod 10) :: char)"
        using n "1.prems" by auto
      have "n div 10 = m div 10"
        using "1.IH" [OF False eq] .
      moreover have "n mod 10 = m mod 10"
        using last by (rule digit_inject) simp_all
      ultimately show ?thesis
        by (metis div_mult_mod_eq)
    qed
  qed
qed

lemma dance_inject: "dance i = dance j \<Longrightarrow> i = j"
  by (simp add: dance_def string_of_nat_inject)

text \<open>
  The lookup \<^verbatim>\<open>actionsRef.current[animationName]\<close> cannot find an inherited property:
  no property of \<^verbatim>\<open>Object.prototype\<close> has a name that starts with \<^verbatim>\<open>dance_\<close>.
\<close>

lemma dance_not_inherited: "\<not> inherited_name (dance index)"
  by (simp add: inherited_name_def dance_def objectPrototype_def)

section \<open>The steps of playDanceAnimation\<close>

lemma playDanceAnimation_not_found:
  assumes "mixerRef s = None \<or> actionsRef s (dance index) = None"
  shows "playDanceAnimation index s =
    s\<lparr>console := console s @
         [Log (''playDanceAnimation('' @ string_of_nat index @ '') called''),
          Warn (''Dance animation '' @ dance index @ '' not found'')],
       actionStore := stopped_store s,
       audioRef := Some (started_audio s)\<rparr>"
  using assms
  by (auto simp: playDanceAnimation_def Let_def write_console_def update_action_def stopped_store_def
      started_audio_def dance_def split: option.splits)

lemma playDanceAnimation_found:
  assumes "mixerRef s = Some m" and "actionsRef s (dance index) = Some a"
  shows "playDanceAnimation index s =
    s\<lparr>console := console s @
         [Log (''playDanceAnimation('' @ string_of_nat index @ '') called''),
          Log (''Playing dance animation '' @ string_of_nat index)],
       actionStore := (stopped_store s)
         (a := setLoop LoopRepeat \<infinity> (play (fadeIn (1/2) (reset (stopped_store s a))))),
       audioRef := Some (started_audio s),
       currentActionRef := Some a\<rparr>"
  using assms
  by (auto simp: playDanceAnimation_def Let_def write_console_def update_action_def stopped_store_def
      started_audio_def dance_def split: option.splits)

lemma playDanceAnimation_cases:
  obtains (not_found) "mixerRef s = None \<or> actionsRef s (dance index) = None"
  | (found) m a where "mixerRef s = Some m" "actionsRef s (dance index) = Some a"
  by (cases "mixerRef s"; cases "actionsRef s (dance index)") auto

lemma playDanceAnimation_refs:
  "mixerRef (playDanceAnimation index s) = mixerRef s"
  "actionsRef (playDanceAnimation index s) = actionsRef s"
  "isLoading (playDanceAnimation index s) = isLoading s"
  "pending (playDanceAnimation index s) = pending s"
  "nextAction (playDanceAnimation index s) = nextAction s"
  by (cases s index rule: playDanceAnimation_cases;
      simp add: playDanceAnimation_not_found playDanceAnimation_found)+

section \<open>Claims about playDanceAnimation\<close>

text \<open>
  Claim C5, as stated: when the mixer is not initialised or no action is registered
  under \<^verbatim>\<open>dance_\<close> followed by the index, the call is a no-op with a logged warning. It
  is not a no-op. In the state \<open>dancing\<close> no action is registered for index 5 and the
  action at address 1 is current and looping; after \<^verbatim>\<open>playDanceAnimation(5)\<close> that
  action is no longer active, and the audio element has been asked to play once more. In
  the state \<open>initial\<close>, where nothing is loaded, the call creates the audio element and
  asks it to play.
\<close>

theorem playDanceAnimation_unregistered_counterexample:
  "actionsRef dancing (dance 5) = None
   \<and> currentActionRef dancing = Some 1
   \<and> looping (actionStore dancing 1)
   \<and> \<not> scheduled (actionStore (playDanceAnimation 5 dancing) 1)
   \<and> map_option play_requests (audioRef dancing) = Some 1
   \<and> map_option play_requests (audioRef (playDanceAnimation 5 dancing)) = Some 2
   \<and> mixerRef initial = None
   \<and> audioRef initial = None
   \<and> map_option play_requests (audioRef (playDanceAnimation 0 initial)) = Some 1"
  by code_simp

text \<open>
  Claim C5, amended: when the mixer is not initialised or no action is registered under
  that name, the call raises nothing, logs that it was called and then a warning, and
  leaves the current-action ref, the table of registered actions and the mixer ref as
  they were. It is not a no-op: the action that is current, if there is one, is told to
  fade out and is stopped (every other action is untouched), and the audio element is
  created if need be and asked to play.
\<close>

theorem playDanceAnimation_unregistered:
  assumes "mixerRef s = None \<or> actionsRef s (dance index) = None"
  shows "currentActionRef (playDanceAnimation index s) = currentActionRef s
    \<and> actionsRef (playDanceAnimation index s) = actionsRef s
    \<and> mixerRef (playDanceAnimation index s) = mixerRef s
    \<and> console (playDanceAnimation index s) = console s @
         [Log (''playDanceAnimation('' @ string_of_nat index @ '') called''),
          Warn (''Dance animation '' @ dance index @ '' not found'')]
    \<and> (\<forall>a. currentActionRef s \<noteq> Some a \<longrightarrow>
          actionStore (playDanceAnimation index s) a = actionStore s a)
    \<and> (\<forall>a. currentActionRef s = Some a \<longrightarrow>
          actionStore (playDanceAnimation index s) a = stop (fadeOut (1/2) (actionStore s a)))
    \<and> audioRef (playDanceAnimation index s) = Some (started_audio s)"
  unfolding playDanceAnimation_not_found [OF assms]
  by (auto simp: stopped_store_def split: option.splits)

theorem playDanceAnimation_unregistered_witness:
  "actionsRef dancing (dance 5) = None
   \<and> currentActionRef (playDanceAnimation 5 dancing) = currentActionRef dancing
   \<and> actionsRef (playDanceAnimation 5 dancing) = actionsRef dancing
   \<and> mixerRef (playDanceAnimation 5 dancing) = mixerRef dancing
   \<and> console (playDanceAnimation 5 dancing) = console dancing @
        [Log (''playDanceAnimation('' @ string_of_nat 5 @ '') called''),
         Warn (''Dance animation '' @ dance 5 @ '' not found'')]
   \<and> currentActionRef dancing = Some 1
   \<and> actionStore (playDanceAnimation 5 dancing) 2 = actionStore dancing 2
   \<and> actionStore (playDanceAnimation 5 dancing) 1 = stop (fadeOut (1/2) (actionStore dancing 1))
   \<and> audioRef (playDanceAnimation 5 dancing) = Some (started_audio dancing)"
proof -
  have none: "actionsRef dancing (dance 5) = None"
    by code_simp
  have cur: "currentActionRef dancing = Some 1"
    by code_simp
  show ?thesis
    using none cur playDanceAnimation_unregistered [of dancing 5] by simp
qed

text \<open>
  Claim C7: called twice in a row with the same registered index, the function restarts
  the action from time zero on each call. After the first call the action is the current
  one and is in the state \<open>restarted\<close>: at time zero, active, enabled, not paused, fading
  in, repeating without end. The same holds after a second call that follows at once,
  and after a second call made when playback has meanwhile reached any time \<open>t\<close>: the
  action does not go on from \<open>t\<close>.
\<close>

theorem playDanceAnimation_restarts:
  fixes s index a t
  defines "s1 \<equiv> playDanceAnimation index s"
  defines "later \<equiv> update_action a (\<lambda>x. x\<lparr>time := t\<rparr>) (playDanceAnimation index s)"
  assumes "mixerRef s = Some m" and "actionsRef s (dance index) = Some a"
  shows "actionStore s1 a = restarted \<and> currentActionRef s1 = Some a
    \<and> actionStore (playDanceAnimation index s1) a = restarted
    \<and> currentActionRef (playDanceAnimation index s1) = Some a
    \<and> time (actionStore later a) = t \<and> scheduled (actionStore later a)
    \<and> actionStore (playDanceAnimation index later) a = restarted
    \<and> currentActionRef (playDanceAnimation index later) = Some a
    \<and> time restarted = 0 \<and> looping restarted \<and> fading restarted = Some (1/2, 0, 1)"
proof -
  have any: "actionStore (playDanceAnimation index s') a = restarted
      \<and> currentActionRef (playDanceAnimation index s') = Some a"
    if "mixerRef s' = Some m" "actionsRef s' (dance index) = Some a" for s'
    unfolding playDanceAnimation_found [OF that]
    by (cases "stopped_store s' a")
      (simp add: setLoop_def play_def fadeIn_def reset_def restarted_def)
  have "mixerRef s1 = Some m" "actionsRef s1 (dance index) = Some a"
    unfolding s1_def using assms(3,4) by (simp_all add: playDanceAnimation_refs)
  moreover have "mixerRef later = Some m" "actionsRef later (dance index) = Some a"
    unfolding later_def using assms(3,4) by (simp_all add: update_action_def playDanceAnimation_refs)
  moreover have "actionStore s1 a = restarted \<and> currentActionRef s1 = Some a"
    unfolding s1_def using assms(3,4) by (rule any)
  moreover from this have "time (actionStore later a) = t \<and> scheduled (actionStore later a)"
    unfolding later_def s1_def by (simp add: update_action_def restarted_def)
  moreover have "time restarted = 0 \<and> looping restarted \<and> fading restarted = Some (1/2, 0, 1)"
    by (simp add: restarted_def looping_def)
  ultimately show ?thesis
    using any [of s1] any [of later] by blast
qed

theorem playDanceAnimation_restarts_witness:
  "mixerRef loaded = Some 0 \<and> actionsRef loaded (dance 0) = Some 1
   \<and> actionStore (playDanceAnimation 0 loaded) 1 = restarted
   \<and> actionStore (playDanceAnimation 0 (playDanceAnimation 0 loaded)) 1 = restarted
   \<and> time (actionStore (update_action 1 (\<lambda>x. x\<lparr>time := 3\<rparr>) (playDanceAnimation 0 loaded)) 1) = 3
   \<and> actionStore
        (playDanceAnimation 0
          (update_action 1 (\<lambda>x. x\<lparr>time := 3\<rparr>) (playDanceAnimation 0 loaded))) 1 = restarted
   \<and> time restarted = 0 \<and> looping restarted"
proof -
  have m: "mixerRef loaded = Some 0"
    by code_simp
  have a: "actionsRef loaded (dance 0) = Some 1"
    by code_simp
  show ?thesis
    using m a playDanceAnimation_restarts [OF m a, of 3] by blast
qed

text \<open>
  Claim C9: for every index and in every state, the call leaves an audio element that
  has been asked to play once more: the element that was there, or a new, looping one
  for the dance music. This does not depend on whether an action is registered for the
  index, since the audio step comes before the lookup.
\<close>

theorem playDanceAnimation_starts_audio:
  "audioRef (playDanceAnimation index s) = Some (started_audio s)
   \<and> play_requests (started_audio s) =
       Suc (case audioRef s of None \<Rightarrow> 0 | Some el \<Rightarrow> play_requests el)
   \<and> (case audioRef s of
         None \<Rightarrow> src (started_audio s) = DANCE_MUSIC \<and> audio_loop (started_audio s)
       | Some el \<Rightarrow> src (started_audio s) = src el \<and> audio_loop (started_audio s) = audio_loop el)"
proof -
  have "audioRef (playDanceAnimation index s) = Some (started_audio s)"
    by (cases s index rule: playDanceAnimation_cases)
      (simp_all add: playDanceAnimation_not_found playDanceAnimation_found)
  then show ?thesis
    by (simp add: started_audio_def audio_play_def new_Audio_def split: option.splits)
qed

theorem playDanceAnimation_starts_audio_witness:
  "mixerRef initial = None \<and> actionsRef initial (dance 0) = None \<and> audioRef initial = None
   \<and> audioRef (playDanceAnimation 0 initial) =
       Some \<lparr>src = ''/3d/idle.mp3'', audio_loop = True, play_requests = 1\<rparr>"
proof -
  have "started_audio initial = \<lparr>src = ''/3d/idle.mp3'', audio_loop = True, play_requests = 1\<rparr>"
    by code_simp
  moreover have "mixerRef initial = None \<and> actionsRef initial (dance 0) = None \<and> audioRef initial = None"
    by code_simp
  ultimately show ?thesis
    using playDanceAnimation_starts_audio [of 0 initial] by simp
qed

section \<open>What every reachable state satisfies\<close>

lemma stopped_store_idle: "discipline s \<Longrightarrow> \<not> scheduled (stopped_store s k)"
  by (auto simp: discipline_def stopped_store_def stop_def reset_def fadeOut_def split: option.splits)

lemma playDanceAnimation_discipline:
  assumes "discipline s"
  shows "discipline (playDanceAnimation index s)"
proof (cases s index rule: playDanceAnimation_cases)
  case not_found
  show ?thesis
    unfolding playDanceAnimation_not_found [OF not_found]
    using stopped_store_idle [OF assms] by (simp add: discipline_def)
next
  case (found m a)
  show ?thesis
    unfolding playDanceAnimation_found [OF found]
    using stopped_store_idle [OF assms] by (simp add: discipline_def)
qed

lemma playDanceAnimation_looping:
  assumes "discipline s" and "mixerRef s = Some m" and "actionsRef s (dance index) = Some b"
  shows "looping (actionStore (playDanceAnimation index s) k) \<longleftrightarrow> k = b"
    and "currentActionRef (playDanceAnimation index s) = Some b"
    and "k \<noteq> b \<Longrightarrow> actionStore (playDanceAnimation index s) k = stopped_store s k"
  unfolding playDanceAnimation_found [OF assms(2,3)]
  using stopped_store_idle [OF assms(1), of k]
  by (auto simp: looping_def setLoop_def play_def fadeIn_def reset_def)

lemma clipAction_fields:
  "isLoading (snd (clipAction s)) = isLoading s"
  "pending (snd (clipAction s)) = pending s"
  "mixerRef (snd (clipAction s)) = mixerRef s"
  "currentActionRef (snd (clipAction s)) = currentActionRef s"
  "actionsRef (snd (clipAction s)) = actionsRef s"
  "nextAction (snd (clipAction s)) = Suc (nextAction s)"
  "fst (clipAction s) = nextAction s"
  by (simp_all add: clipAction_def)

lemma register_step:
  "register prefix (index # rest) s =
    register prefix rest
      ((snd (clipAction s))\<lparr>actionsRef := (actionsRef s)(prefix @ string_of_nat index \<mapsto> nextAction s)\<rparr>)"
  by (simp add: clipAction_def)

lemma register_fields:
  "isLoading (register prefix indices s) = isLoading s
   \<and> pending (register prefix indices s) = pending s
   \<and> mixerRef (register prefix indices s) = mixerRef s"
proof (induction indices arbitrary: s)
  case Nil
  show ?case by simp
next
  case (Cons index rest)
  show ?case
    unfolding register_step by (simp add: Cons clipAction_fields)
qed

lemma register_discipline: "discipline s \<Longrightarrow> discipline (register prefix indices s)"
proof (induction indices arbitrary: s)
  case Nil
  then show ?case by simp
next
  case (Cons index rest)
  have "discipline
      ((snd (clipAction s))\<lparr>actionsRef := (actionsRef s)(prefix @ string_of_nat index \<mapsto> nextAction s)\<rparr>)"
    using Cons.prems by (simp add: discipline_def clipAction_def new_action_def)
  then show ?case
    unfolding register_step by (rule Cons.IH)
qed

lemma register_registry_ok:
  "registry_ok s \<Longrightarrow> mixerRef s \<noteq> None \<Longrightarrow> registry_ok (register prefix indices s)"
proof (induction indices arbitrary: s)
  case Nil
  then show ?case by simp
next
  case (Cons index rest)
  let ?s1 = "(snd (clipAction s))\<lparr>actionsRef := (actionsRef s)(prefix @ string_of_nat index \<mapsto> nextAction s)\<rparr>"
  have old: "a < nextAction s" if "actionsRef s name = Some a" for name a
    using Cons.prems(1) that by (auto simp: registry_ok_def)
  have inj: "name = name'" if "actionsRef s name = Some a" "actionsRef s name' = Some a" for name name' a
    using Cons.prems(1) that unfolding registry_ok_def by blast
  have "registry_ok ?s1"
    unfolding registry_ok_def
  proof (intro conjI allI impI)
    fix name a assume "actionsRef ?s1 name = Some a"
    then show "a < nextAction ?s1"
      using old [of name a] by (auto simp: clipAction_fields split: if_splits)
  next
    fix name a assume "actionsRef ?s1 name = Some a"
    show "mixerRef ?s1 \<noteq> None"
      using Cons.prems(2) by (simp add: clipAction_fields)
  next
    fix name name' a
    assume "actionsRef ?s1 name = Some a \<and> actionsRef ?s1 name' = Some a"
    then show "name = name'"
      using old [of name a] old [of name' a] inj [of name a name']
      by (auto split: if_splits)
  qed
  moreover have "mixerRef ?s1 \<noteq> None"
    using Cons.prems(2) by (simp add: clipAction_fields)
  ultimately show ?case
    unfolding register_step by (rule Cons.IH)
qed

lemma register_retargeted_step:
  "register_retargeted index (True # rest) s =
    register_retargeted (Suc index) rest
      ((snd (clipAction s))\<lparr>actionsRef := (actionsRef s)(''dance_'' @ string_of_nat index \<mapsto> nextAction s)\<rparr>)"
  "register_retargeted index (False # rest) s = (True, s)"
  by (simp_all add: clipAction_def)

lemma register_retargeted_fields:
  "isLoading (snd (register_retargeted index clips s)) = isLoading s
   \<and> pending (snd (register_retargeted index clips s)) = pending s
   \<and> mixerRef (snd (register_retargeted index clips s)) = mixerRef s"
proof (induction clips arbitrary: index s)
  case Nil
  show ?case by simp
next
  case (Cons accepted rest)
  show ?case
    by (cases accepted) (simp_all only: register_retargeted_step Cons, simp_all add: clipAction_fields)
qed

lemma register_retargeted_discipline:
  "discipline s \<Longrightarrow> discipline (snd (register_retargeted index clips s))"
proof (induction clips arbitrary: index s)
  case Nil
  then show ?case by simp
next
  case (Cons accepted rest)
  show ?case
  proof (cases accepted)
    case False
    then show ?thesis
      using Cons.prems by (simp add: register_retargeted_step)
  next
    case True
    have "discipline
        ((snd (clipAction s))\<lparr>actionsRef := (actionsRef s)(''dance_'' @ string_of_nat index \<mapsto> nextAction s)\<rparr>)"
      using Cons.prems by (simp add: discipline_def clipAction_def new_action_def)
    then have "discipline (snd (register_retargeted (Suc index) rest
        ((snd (clipAction s))\<lparr>actionsRef := (actionsRef s)(''dance_'' @ string_of_nat index \<mapsto> nextAction s)\<rparr>)))"
      by (rule Cons.IH)
    then show ?thesis
      using True by (simp del: register_retargeted.simps add: register_retargeted_step)
  qed
qed

lemma registry_ok_fresh:
  assumes "registry_ok s" and "mixerRef s \<noteq> None"
  shows "registry_ok ((snd (clipAction s))\<lparr>actionsRef := (actionsRef s)(name \<mapsto> nextAction s)\<rparr>)"
    (is "registry_ok ?s1")
proof -
  have old: "a < nextAction s" if "actionsRef s n = Some a" for n a
    using assms(1) that by (auto simp: registry_ok_def)
  have inj: "n = n'" if "actionsRef s n = Some a" "actionsRef s n' = Some a" for n n' a
    using assms(1) that unfolding registry_ok_def by blast
  show ?thesis
    unfolding registry_ok_def
  proof (intro conjI allI impI)
    fix n a assume "actionsRef ?s1 n = Some a"
    then show "a < nextAction ?s1"
      using old [of n a] by (auto simp: clipAction_fields split: if_splits)
  next
    fix n a assume "actionsRef ?s1 n = Some a"
    show "mixerRef ?s1 \<noteq> None"
      using assms(2) by (simp add: clipAction_fields)
  next
    fix n n' a
    assume "actionsRef ?s1 n = Some a \<and> actionsRef ?s1 n' = Some a"
    then show "n = n'"
      using old [of n a] old [of n' a] inj [of n a n']
      by (auto split: if_splits)
  qed
qed

lemma register_retargeted_registry_ok:
  "registry_ok s \<Longrightarrow> mixerRef s \<noteq> None \<Longrightarrow> registry_ok (snd (register_retargeted index clips s))"
proof (induction clips arbitrary: index s)
  case Nil
  then show ?case by simp
next
  case (Cons accepted rest)
  show ?case
  proof (cases accepted)
    case False
    then show ?thesis
      using Cons.prems by (simp add: register_retargeted_step)
  next
    case True
    let ?s1 = "(snd (clipAction s))\<lparr>actionsRef := (actionsRef s)(''dance_'' @ string_of_nat index \<mapsto> nextAction s)\<rparr>"
    have "registry_ok ?s1"
      using Cons.prems by (rule registry_ok_fresh)
    moreover have "mixerRef ?s1 \<noteq> None"
      using Cons.prems(2) by (simp add: clipAction_fields)
    ultimately have "registry_ok (snd (register_retargeted (Suc index) rest ?s1))"
      by (rule Cons.IH)
    then show ?thesis
      using True by (simp del: register_retargeted.simps add: register_retargeted_step)
  qed
qed

lemma write_console_discipline: "discipline (write_console e s) = discipline s"
  by (simp add: write_console_def discipline_def)

lemma write_console_registry_ok: "registry_ok (write_console e s) = registry_ok s"
  by (simp add: write_console_def registry_ok_def)

lemma processExternalAnimations_cases:
  obtains (guard) "processExternalAnimations s =
      write_console (Warn ''Missing data required for animation processing'') s"
  | (registered) "mixerRef s \<noteq> None"
      "processExternalAnimations s = snd (register_retargeted 0 (danceAnimationsRef s) s)"
  | (caught) "mixerRef s \<noteq> None"
      "processExternalAnimations s =
        write_console (Error ''Failed to process external animations:'')
          (snd (register_retargeted 0 (danceAnimationsRef s) s))"
proof (cases "danceAnimationsRef s = [] \<or> modelRef s = None \<or> mixerRef s = None")
  case True
  then have "processExternalAnimations s =
      write_console (Warn ''Missing data required for animation processing'') s"
    by (auto simp: processExternalAnimations_def)
  then show ?thesis by (rule guard)
next
  case False
  then have m: "mixerRef s \<noteq> None"
    by simp
  obtain thrown s' where r: "register_retargeted 0 (danceAnimationsRef s) s = (thrown, s')"
    by (cases "register_retargeted 0 (danceAnimationsRef s) s") auto
  show ?thesis
  proof (cases thrown)
    case True
    then have "processExternalAnimations s =
        write_console (Error ''Failed to process external animations:'')
          (snd (register_retargeted 0 (danceAnimationsRef s) s))"
      using False r by (auto simp: processExternalAnimations_def)
    with m show ?thesis by (rule caught)
  next
    case thrown: False
    then have "processExternalAnimations s = snd (register_retargeted 0 (danceAnimationsRef s) s)"
      using False r by (auto simp: processExternalAnimations_def)
    with m show ?thesis by (rule registered)
  qed
qed

lemma processExternalAnimations_fields:
  "isLoading (processExternalAnimations s) = isLoading s
   \<and> pending (processExternalAnimations s) = pending s
   \<and> mixerRef (processExternalAnimations s) = mixerRef s"
  by (cases s rule: processExternalAnimations_cases)
    (simp_all add: register_retargeted_fields write_console_def)

lemma processExternalAnimations_discipline:
  assumes "discipline s"
  shows "discipline (processExternalAnimations s)"
  by (cases s rule: processExternalAnimations_cases)
    (simp_all add: write_console_discipline register_retargeted_discipline assms)

lemma processExternalAnimations_registry_ok:
  assumes "registry_ok s"
  shows "registry_ok (processExternalAnimations s)"
  by (cases s rule: processExternalAnimations_cases)
    (simp_all add: write_console_registry_ok register_retargeted_registry_ok assms)

lemma discipline_updates:
  "discipline (s\<lparr>pending := p\<rparr>) = discipline s"
  "discipline (s\<lparr>isLoading := b\<rparr>) = discipline s"
  "discipline (s\<lparr>onModelLoaded := calls\<rparr>) = discipline s"
  "discipline (s\<lparr>danceAnimationsRef := n\<rparr>) = discipline s"
  "discipline (s\<lparr>modelRef := model, mixerRef := mixer, loads := l\<rparr>) = discipline s"
  by (simp_all add: discipline_def)

lemma registry_ok_updates:
  "registry_ok (s\<lparr>pending := p\<rparr>) = registry_ok s"
  "registry_ok (s\<lparr>isLoading := b\<rparr>) = registry_ok s"
  "registry_ok (s\<lparr>onModelLoaded := calls\<rparr>) = registry_ok s"
  "registry_ok (s\<lparr>danceAnimationsRef := n\<rparr>) = registry_ok s"
  "registry_ok s \<Longrightarrow> registry_ok (s\<lparr>modelRef := model, mixerRef := Some mixer, loads := l\<rparr>)"
  by (simp_all add: registry_ok_def)

lemma loadModels_invariant: "invariant s \<Longrightarrow> invariant (loadModels s)"
  by (auto simp: invariant_def loadModels_def single_flight_def discipline_updates registry_ok_updates)

lemma finally_block_invariant:
  assumes "single_flight s" and "discipline s" and "registry_ok s" and "k < length (pending s)"
  shows "invariant (finally_block k s)"
proof -
  obtain t where "pending s = [t]" "k = 0"
    using assms(1,4) by (cases "pending s") (auto simp: single_flight_def)
  then have "single_flight (finally_block k s)"
    by (simp add: single_flight_def finally_block_def)
  moreover have "discipline (finally_block k s)" "registry_ok (finally_block k s)"
    using assms(2,3) by (simp_all add: finally_block_def discipline_def registry_ok_def)
  ultimately show ?thesis
    by (simp add: invariant_def)
qed

lemma failed_fields:
  "single_flight (failed err s) = single_flight s"
  "discipline (failed err s) = discipline s"
  "registry_ok (failed err s) = registry_ok s"
  "pending (failed err s) = pending s"
  by (simp_all add: failed_def Let_def write_console_def single_flight_def discipline_def registry_ok_def)

lemma settle_invariant:
  assumes "invariant s"
  shows "invariant (settle k r s)"
proof (cases "k < length (pending s)")
  case False
  then show ?thesis
    using assms by (simp add: settle_def)
next
  case True
  from assms have sf: "single_flight s" and di: "discipline s" and ro: "registry_ok s"
    by (simp_all add: invariant_def)
  show ?thesis
  proof (cases r)
    case (Rejected err)
    have "settle k r s = finally_block k (failed err s)"
      using True Rejected by (simp add: settle_def split: task.splits)
    then show ?thesis
      using finally_block_invariant [of "failed err s" k] sf di ro True by (simp add: failed_fields)
  next
    case (Resolved clips)
    show ?thesis
    proof (cases "pending s ! k")
      case AwaitDance
      let ?s1 = "s\<lparr>danceAnimationsRef := clips\<rparr>"
      let ?s2 = "if 0 < length clips then processExternalAnimations ?s1 else ?s1"
      let ?s3 = "?s2\<lparr>onModelLoaded := onModelLoaded ?s2 @ [(True, None)]\<rparr>"
      have eq: "settle k r s = finally_block k ?s3"
        using True Resolved AwaitDance by (simp add: settle_def Let_def)
      have "single_flight ?s3"
        using sf by (simp add: single_flight_def processExternalAnimations_fields)
      moreover have "discipline ?s3"
        using di processExternalAnimations_discipline [of ?s1] by (simp add: discipline_updates)
      moreover have "registry_ok ?s3"
        using ro processExternalAnimations_registry_ok [of ?s1] by (simp add: registry_ok_updates)
      moreover have "k < length (pending ?s3)"
        using True by (simp add: processExternalAnimations_fields)
      ultimately show ?thesis
        unfolding eq by (rule finally_block_invariant)
    next
      case AwaitCharacter
      let ?s1 = "s\<lparr>modelRef := Some (loads s), mixerRef := Some (loads s), loads := Suc (loads s)\<rparr>"
      let ?s2 = "if 0 < length clips then register ''original_'' [0 ..< length clips] ?s1 else ?s1"
      have eq: "settle k r s = ?s2\<lparr>pending := (pending ?s2)[k := AwaitDance]\<rparr>"
        using True Resolved AwaitCharacter by (simp add: settle_def Let_def)
      have p: "pending ?s2 = pending s" "isLoading ?s2 = isLoading s"
        by (simp_all add: register_fields)
      obtain t where "pending s = [t]" "k = 0"
        using sf True by (cases "pending s") (auto simp: single_flight_def)
      then have "single_flight (?s2\<lparr>pending := (pending ?s2)[k := AwaitDance]\<rparr>)"
        using sf p by (simp add: single_flight_def)
      moreover have "discipline ?s2"
        using di register_discipline [of ?s1] by (simp add: discipline_updates)
      moreover have "registry_ok ?s1"
        using ro by (rule registry_ok_updates)
      then have "registry_ok ?s2"
        using register_registry_ok [of ?s1] by simp
      ultimately show ?thesis
        unfolding eq by (simp add: invariant_def discipline_updates registry_ok_updates)
    qed
  qed
qed

lemma playDanceAnimation_invariant:
  assumes "invariant s"
  shows "invariant (playDanceAnimation index s)"
proof -
  have "single_flight (playDanceAnimation index s)"
    using assms by (simp add: invariant_def single_flight_def playDanceAnimation_refs)
  moreover have "registry_ok (playDanceAnimation index s)"
    using assms by (simp add: invariant_def registry_ok_def playDanceAnimation_refs)
  moreover have "discipline (playDanceAnimation index s)"
    using assms by (simp add: invariant_def playDanceAnimation_discipline)
  ultimately show ?thesis
    by (simp add: invariant_def)
qed

lemma step_invariant: "invariant s \<Longrightarrow> invariant (step s e)"
  by (cases e) (simp_all add: loadModels_invariant settle_invariant playDanceAnimation_invariant)

lemma initial_invariant: "invariant initial"
  by (simp add: invariant_def single_flight_def discipline_def registry_ok_def initial_def new_action_def)

lemma run_snoc: "run (events @ [e]) = step (run events) e"
  by (simp add: run_def)

lemma run_invariant: "invariant (run events)"
proof (induction events rule: rev_induct)
  case Nil
  show ?case by (simp add: run_def initial_invariant)
next
  case (snoc e events)
  then show ?case
    by (simp add: run_snoc step_invariant)
qed

text \<open>
  When the mixer refuses a retargeted clip, the clips before it are registered, that
  clip and those after it are not, the error is logged, and the load still ends as a
  success.
\<close>

lemma processExternalAnimations_caught_example:
  "map (actionsRef partly_loaded) [dance 0, dance 1, dance 2] = [Some 1, None, None]
   \<and> console partly_loaded = [Error ''Failed to process external animations:'']
   \<and> onModelLoaded partly_loaded = [(True, None)]
   \<and> \<not> isLoading partly_loaded \<and> pending partly_loaded = []"
  by code_simp

text \<open>
  Claim C6: for registered indices \<open>i\<close> and \<open>j\<close> that differ, in any state the page can
  reach, \<^verbatim>\<open>playDanceAnimation(i)\<close> followed at once by \<^verbatim>\<open>playDanceAnimation(j)\<close> leaves
  exactly one action looping, the action of \<open>j\<close>; the action of \<open>i\<close>, current in between,
  has been told to fade out and has been stopped. As long as playback is requested
  through \<^verbatim>\<open>playDanceAnimation\<close> only, no action but the current one is ever active
  (before, between and after the two calls).
\<close>

theorem playDanceAnimation_switch:
  fixes events i j
  defines "s1 \<equiv> playDanceAnimation i (run events)"
  defines "s2 \<equiv> playDanceAnimation j (playDanceAnimation i (run events))"
  assumes "actionsRef (run events) (dance i) = Some a"
    and "actionsRef (run events) (dance j) = Some b"
    and "i \<noteq> j"
  shows "(\<forall>k. looping (actionStore s2 k) \<longleftrightarrow> k = b)
    \<and> currentActionRef s1 = Some a
    \<and> currentActionRef s2 = Some b
    \<and> actionStore s2 a = stop (fadeOut (1/2) (actionStore s1 a))
    \<and> \<not> scheduled (actionStore s2 a)
    \<and> discipline (run events) \<and> discipline s1 \<and> discipline s2"
proof -
  let ?s = "run events"
  have inv: "invariant ?s"
    by (rule run_invariant)
  then have d0: "discipline ?s" and ro: "registry_ok ?s"
    by (simp_all add: invariant_def)
  from ro assms(3) have "mixerRef ?s \<noteq> None"
    unfolding registry_ok_def by blast
  then obtain m where m: "mixerRef ?s = Some m"
    by (cases "mixerRef ?s") auto
  have ab: "a \<noteq> b"
  proof
    assume "a = b"
    then have "dance i = dance j"
      using ro assms(3,4) unfolding registry_ok_def by blast
    then show False
      using assms(5) by (auto dest: dance_inject)
  qed
  have d1: "discipline s1"
    unfolding s1_def using d0 by (rule playDanceAnimation_discipline)
  have m1: "mixerRef s1 = Some m" and b1: "actionsRef s1 (dance j) = Some b"
    unfolding s1_def using m assms(4) by (simp_all add: playDanceAnimation_refs)
  have c1: "currentActionRef s1 = Some a"
    unfolding s1_def using d0 m assms(3) by (rule playDanceAnimation_looping(2))
  have s2: "s2 = playDanceAnimation j s1"
    by (simp add: s1_def s2_def)
  have loop: "looping (actionStore s2 k) \<longleftrightarrow> k = b" for k
    unfolding s2 using d1 m1 b1 by (rule playDanceAnimation_looping(1))
  have c2: "currentActionRef s2 = Some b"
    unfolding s2 using d1 m1 b1 by (rule playDanceAnimation_looping(2))
  have "actionStore s2 a = stopped_store s1 a"
    unfolding s2 using d1 m1 b1 ab by (rule playDanceAnimation_looping(3))
  then have st: "actionStore s2 a = stop (fadeOut (1/2) (actionStore s1 a))"
    using c1 by (simp add: stopped_store_def)
  have d2: "discipline s2"
    unfolding s2 using d1 by (rule playDanceAnimation_discipline)
  have "\<not> scheduled (actionStore s2 a)"
    using st by (simp add: stop_def reset_def)
  then show ?thesis
    using loop c1 c2 st d0 d1 d2 by blast
qed

theorem playDanceAnimation_switch_witness:
  "actionsRef (run [LoadModels, Settle 0 (Resolved [True]), Settle 0 (Resolved [True, True])]) (dance 0) = Some 1
   \<and> actionsRef (run [LoadModels, Settle 0 (Resolved [True]), Settle 0 (Resolved [True, True])]) (dance 1) = Some 2
   \<and> (0 :: nat) \<noteq> 1
   \<and> (\<forall>k. looping (actionStore (playDanceAnimation 1 (playDanceAnimation 0
          (run [LoadModels, Settle 0 (Resolved [True]), Settle 0 (Resolved [True, True])]))) k) \<longleftrightarrow> k = 2)
   \<and> currentActionRef (playDanceAnimation 1 (playDanceAnimation 0
          (run [LoadModels, Settle 0 (Resolved [True]), Settle 0 (Resolved [True, True])]))) = Some 2
   \<and> \<not> scheduled (actionStore (playDanceAnimation 1 (playDanceAnimation 0
          (run [LoadModels, Settle 0 (Resolved [True]), Settle 0 (Resolved [True, True])]))) 1)"
proof -
  let ?events = "[LoadModels, Settle 0 (Resolved [True]), Settle 0 (Resolved [True, True])]"
  have a: "actionsRef (run ?events) (dance 0) = Some 1"
    by code_simp
  have b: "actionsRef (run ?events) (dance 1) = Some 2"
    by code_simp
  have ne: "(0 :: nat) \<noteq> 1"
    by simp
  show ?thesis
    using a b ne playDanceAnimation_switch [OF a b ne] by blast
qed

section \<open>Claims about loadModels\<close>

text \<open>
  Claim C8: at most one model load is in flight. In every state the page can reach, at
  most one invocation of \<^verbatim>\<open>loadModels\<close> is suspended, and the flag \<^verbatim>\<open>isLoading\<close> is
  set exactly while one is. A call made while the flag is set changes nothing at all:
  it is dropped, and nothing is queued for later. When the load in flight ends, by the
  failure of either file or by the arrival of the motion file, the flag is cleared and
  nothing is left pending (no retry); the arrival of the character file alone does not
  end it.
\<close>

theorem loadModels_single_flight:
  "length (pending (run events)) \<le> 1
   \<and> (isLoading (run events) \<longleftrightarrow> pending (run events) \<noteq> [])
   \<and> (isLoading (run events) \<longrightarrow> loadModels (run events) = run events)
   \<and> (isLoading (run events) \<longrightarrow>
        (\<forall>err. \<not> isLoading (settle 0 (Rejected err) (run events))
               \<and> pending (settle 0 (Rejected err) (run events)) = []))
   \<and> (pending (run events) = [AwaitDance] \<longrightarrow>
        (\<forall>clips. \<not> isLoading (settle 0 (Resolved clips) (run events))
             \<and> pending (settle 0 (Resolved clips) (run events)) = []))
   \<and> (pending (run events) = [AwaitCharacter] \<longrightarrow>
        (\<forall>clips. isLoading (settle 0 (Resolved clips) (run events))
             \<and> pending (settle 0 (Resolved clips) (run events)) = [AwaitDance]))"
proof -
  let ?s = "run events"
  have "invariant ?s"
    by (rule run_invariant)
  then have sf: "length (pending ?s) \<le> 1" "isLoading ?s \<longleftrightarrow> pending ?s \<noteq> []"
    by (simp_all add: invariant_def single_flight_def)
  have drop: "loadModels ?s = ?s" if "isLoading ?s"
    using that by (simp add: loadModels_def)
  have rej: "\<not> isLoading (settle 0 (Rejected err) ?s) \<and> pending (settle 0 (Rejected err) ?s) = []"
    if l: "isLoading ?s" for err
  proof -
    obtain t where "pending ?s = [t]"
      using sf l by (cases "pending ?s") auto
    then show ?thesis
      by (simp add: settle_def finally_block_def failed_fields split: task.splits)
  qed
  have dance: "\<not> isLoading (settle 0 (Resolved clips) ?s) \<and> pending (settle 0 (Resolved clips) ?s) = []"
    if "pending ?s = [AwaitDance]" for clips
    using that
    by (simp add: settle_def Let_def finally_block_def processExternalAnimations_fields)
  have char: "isLoading (settle 0 (Resolved clips) ?s) \<and> pending (settle 0 (Resolved clips) ?s) = [AwaitDance]"
    if "pending ?s = [AwaitCharacter]" for clips
    using that sf(2)
    by (simp add: settle_def Let_def register_fields)
  show ?thesis
    using sf drop rej dance char by blast
qed

theorem loadModels_single_flight_witness:
  "isLoading (run [LoadModels])
   \<and> pending (run [LoadModels]) = [AwaitCharacter]
   \<and> loadModels (run [LoadModels]) = run [LoadModels]
   \<and> \<not> isLoading (settle 0 (Rejected None) (run [LoadModels]))
   \<and> pending (settle 0 (Rejected None) (run [LoadModels])) = []
   \<and> pending (settle 0 (Resolved [True]) (run [LoadModels])) = [AwaitDance]
   \<and> pending (run [LoadModels, Settle 0 (Resolved [True])]) = [AwaitDance]
   \<and> \<not> isLoading (settle 0 (Resolved [True, True]) (run [LoadModels, Settle 0 (Resolved [True])]))
   \<and> pending (settle 0 (Resolved [True, True]) (run [LoadModels, Settle 0 (Resolved [True])])) = []"
proof -
  have l: "isLoading (run [LoadModels])"
    by code_simp
  have p: "pending (run [LoadModels]) = [AwaitCharacter]"
    by code_simp
  have q: "pending (run [LoadModels, Settle 0 (Resolved [True])]) = [AwaitDance]"
    by code_simp
  show ?thesis
    using l p q loadModels_single_flight [of "[LoadModels]"]
      loadModels_single_flight [of "[LoadModels, Settle 0 (Resolved [True])]"]
    by simp
qed

end
